theory Spec2Isabelle
  imports Complex_Main
begin

section \<open>Data model\<close>

text \<open>
  A JavaScript string is a sequence of UTF-16 code units; each unit is kept as a
  natural number, so that \<open>btoa\<close> can tell the units above 255 it rejects.
  \<open>js\<close> turns an ASCII literal into such a string.
\<close>

type_synonym jsstring = "nat list"

definition js :: "string \<Rightarrow> jsstring" where
  "js s = map of_char s"

text \<open>\<open>CapturedContent\<close> (background service) and its \<open>metadata\<close> object.\<close>

record Metadata =
  domain :: jsstring
  contentType :: jsstring
  wordCount :: int

record CapturedContent =
  url :: jsstring
  title :: jsstring
  content :: jsstring
  timestamp :: int
  metadata :: Metadata

text \<open>
  \<open>GeminiAnalysis\<close>, with the field types its interface declares. The field names
  \<open>summary\<close> and \<open>contentType\<close> are taken by other objects, hence the prefix.
\<close>

record GeminiAnalysis =
  concepts :: "jsstring list"
  a_summary :: jsstring
  a_contentType :: jsstring
  author :: "jsstring option"
  mainTopic :: jsstring
  relatedTopics :: "jsstring list"
  confidence :: real

text \<open>
  \<open>ProcessedContent\<close> is the captured content spread into a new object together
  with \<open>analysis\<close> and \<open>nodeId\<close>.
\<close>

record ProcessedContent = CapturedContent +
  analysis :: GeminiAnalysis
  nodeId :: jsstring

datatype NodeType = Page | Concept | Author | Domain

text \<open>The \<open>data\<close> object of a node; an optional field that is absent is \<open>None\<close>.\<close>

record NodeData =
  label :: jsstring
  n_url :: "jsstring option"
  summary :: "jsstring option"
  n_timestamp :: "int option"
  importance :: real
  n_domain :: "jsstring option"
  n_contentType :: "jsstring option"
  connectedPages :: "jsstring list option"

record GraphNode =
  node_id :: jsstring
  node_type :: NodeType
  data :: NodeData
  position :: "real \<times> real"

datatype EdgeType = relates_to | authored_by | part_of | similar_to

record EdgeData =
  strength :: real
  relationship :: jsstring

record GraphEdge =
  edge_id :: jsstring
  source :: jsstring
  target :: jsstring
  edge_type :: EdgeType
  e_data :: EdgeData

text \<open>
  The part of \<open>chrome.storage.local\<close> the storage manager uses, one field per storage
  key. A key that was never written reads as \<open>[]\<close> (or \<open>0\<close> for the cleanup time),
  which is what \<open>result[KEY] || []\<close> yields. Reads and writes of the storage itself are
  taken to succeed; every operation below is the body of the method's \<open>try\<close> block.
\<close>

record Storage =
  CONTENT :: "ProcessedContent list"
  NODES :: "GraphNode list"
  EDGES :: "GraphEdge list"
  LAST_CLEANUP :: int

definition empty_storage :: Storage where
  "empty_storage = \<lparr>CONTENT = [], NODES = [], EDGES = [], LAST_CLEANUP = 0\<rparr>"

section \<open>Storage manager\<close>

text \<open>\<open>Array.prototype.findIndex\<close>: the first index whose element satisfies the test, or \<open>-1\<close>.\<close>

fun findIndex :: "('a \<Rightarrow> bool) \<Rightarrow> 'a list \<Rightarrow> int" where
  "findIndex P [] = -1"
| "findIndex P (x # xs) =
     (if P x then 0 else (let i = findIndex P xs in if i = -1 then -1 else i + 1))"

text \<open>
  \<open>storeProcessedContent\<close>: drop the records of the same URL, push the new one, sort
  by descending timestamp (the sort of the array is stable) and keep the first 1000.
\<close>

definition storeProcessedContent :: "Storage \<Rightarrow> ProcessedContent \<Rightarrow> Storage" where
  "storeProcessedContent s c =
     (let existingContent = CONTENT s;
          filteredContent = filter (\<lambda>item. url item \<noteq> url c) existingContent @ [c];
          sortedContent = take 1000 (sort_key (\<lambda>item. - timestamp item) filteredContent)
      in s\<lparr>CONTENT := sortedContent\<rparr>)"

definition findSimilarContent :: "Storage \<Rightarrow> jsstring \<Rightarrow> ProcessedContent option" where
  "findSimilarContent s u = find (\<lambda>item. url item = u) (CONTENT s)"

definition addGraphNode :: "Storage \<Rightarrow> GraphNode \<Rightarrow> Storage" where
  "addGraphNode s node =
     (let nodes = NODES s;
          filteredNodes = filter (\<lambda>n. node_id n \<noteq> node_id node) nodes @ [node]
      in s\<lparr>NODES := filteredNodes\<rparr>)"

definition getGraphNode :: "Storage \<Rightarrow> jsstring \<Rightarrow> GraphNode option" where
  "getGraphNode s nid = find (\<lambda>node. node_id node = nid) (NODES s)"

definition updateGraphNode :: "Storage \<Rightarrow> GraphNode \<Rightarrow> Storage" where
  "updateGraphNode s node =
     (let nodes = NODES s;
          nodeIndex = findIndex (\<lambda>n. node_id n = node_id node) nodes
      in if nodeIndex \<noteq> -1 then s\<lparr>NODES := nodes[nat nodeIndex := node]\<rparr> else s)"

definition addGraphEdge :: "Storage \<Rightarrow> GraphEdge \<Rightarrow> Storage" where
  "addGraphEdge s edge =
     (let edges = EDGES s;
          existingEdge = find (\<lambda>e. edge_id e = edge_id edge) edges
      in case existingEdge of
           None \<Rightarrow> s\<lparr>EDGES := edges @ [edge]\<rparr>
         | Some _ \<Rightarrow> s)"

text \<open>
  \<open>clearOldData\<close>; \<open>now\<close> is the value of the first \<open>Date.now()\<close>, \<open>now'\<close> that of
  the second one, written as the time of the last cleanup. A number used as a
  condition is falsy when it is absent or zero, so \<open>!node.data.timestamp\<close> holds for
  a node without timestamp and for the timestamp \<open>0\<close>. The edges are neither read nor
  written.
\<close>

definition clearOldData :: "int \<Rightarrow> int \<Rightarrow> int \<Rightarrow> Storage \<Rightarrow> Storage" where
  "clearOldData now now' maxAge s =
     (let cutoffTime = now - maxAge;
          recentContent = filter (\<lambda>item. timestamp item > cutoffTime) (CONTENT s);
          recentNodes = filter (\<lambda>node. case n_timestamp (data node) of
                                           None \<Rightarrow> True
                                         | Some t \<Rightarrow> t = 0 \<or> t > cutoffTime) (NODES s)
      in s\<lparr>CONTENT := recentContent, NODES := recentNodes, LAST_CLEANUP := now'\<rparr>)"

definition default_maxAge :: int where
  "default_maxAge = 7 * 24 * 60 * 60 * 1000"








section \<open>Background service\<close>

datatype error =
    InvalidCharacterError
  | TypeError
  | SyntaxError
  | FetchFailed
  | GeminiAPIError nat
  | InvalidResponseFormat

text \<open>
  \<open>btoa\<close> is the browser's base64 encoder: it throws \<open>InvalidCharacterError\<close> when a
  code unit of its argument is above 255 and encodes the units as bytes otherwise,
  three bytes to four characters, padded with \<open>=\<close>.
\<close>

definition b64chars :: jsstring where
  "b64chars = js ''ABCDEFGHIJKLMNOPQRSTUVWXYZabcdefghijklmnopqrstuvwxyz0123456789+/''"

definition b64 :: "nat \<Rightarrow> nat" where
  "b64 i = b64chars ! i"

fun encode :: "nat list \<Rightarrow> jsstring" where
  "encode (a # b # c # r) =
     [b64 (a div 4), b64 ((a mod 4) * 16 + b div 16), b64 ((b mod 16) * 4 + c div 64), b64 (c mod 64)]
     @ encode r"
| "encode [a, b] = [b64 (a div 4), b64 ((a mod 4) * 16 + b div 16), b64 ((b mod 16) * 4), 61]"
| "encode [a] = [b64 (a div 4), b64 ((a mod 4) * 16), 61, 61]"
| "encode [] = []"

definition btoa :: "jsstring \<Rightarrow> error + jsstring" where
  "btoa s = (if list_all (\<lambda>c. c \<le> 255) s then Inr (encode s) else Inl InvalidCharacterError)"

text \<open>
  \<open>generateNodeId\<close>: \<open>btoa(url).replace(/[+/=]/g, '').substring(0, 16)\<close>.
\<close>

definition generateNodeId :: "jsstring \<Rightarrow> error + jsstring" where
  "generateNodeId u =
     (case btoa u of
        Inl e \<Rightarrow> Inl e
      | Inr b \<Rightarrow> Inr (take 16 (filter (\<lambda>c. c \<notin> set (js ''+/='')) b)))"

text \<open>
  \<open>calculateImportance\<close>. A JavaScript number is read as a real number. The
  \<open>concepts\<close> of an analysis are an array, which is truthy also when empty, so the
  concept bonus is always added.
\<close>

definition calculateImportance :: "'a CapturedContent_scheme \<Rightarrow> GeminiAnalysis \<Rightarrow> real" where
  "calculateImportance c a =
     (let score = 0;
          score = score + min (real_of_int (wordCount (metadata c)) / 1000) 5;
          score = (if contentType (metadata c) = js ''research'' then score + 3 else score);
          score = (if contentType (metadata c) = js ''documentation'' then score + 2 else score);
          score = score + min (real (length (concepts a)) * 0.5) 3
      in min score 10)"

text \<open>
  \<open>processConceptNode\<close>. \<open>pos\<close> is the position drawn for a new node, the pair of
  the two values of \<open>Math.random() * 400\<close>. The
  identifier is computed first, so an exception of \<open>btoa\<close> leaves the storage as it
  was. \<open>existingNode.data.connectedPages || []\<close> is the stored list, or \<open>[]\<close> when the
  field is absent.
\<close>

definition processConceptNode ::
  "real \<times> real \<Rightarrow> jsstring \<Rightarrow> jsstring \<Rightarrow> Storage \<Rightarrow> error + Storage" where
  "processConceptNode pos concept pageNodeId s =
     (case generateNodeId (js ''concept:'' @ concept) of
        Inl e \<Rightarrow> Inl e
      | Inr conceptId \<Rightarrow>
          (let s1 =
                 (case getGraphNode s conceptId of
                    None \<Rightarrow>
                      addGraphNode s
                        \<lparr>node_id = conceptId, node_type = Concept,
                         data = \<lparr>label = concept, n_url = None, summary = None, n_timestamp = None,
                                 importance = 1, n_domain = None, n_contentType = None,
                                 connectedPages = Some [pageNodeId]\<rparr>,
                         position = pos\<rparr>
                  | Some existingNode \<Rightarrow>
                      updateGraphNode s
                        (existingNode\<lparr>data := (data existingNode)
                           \<lparr>importance := importance (data existingNode) + 0.5,
                            connectedPages :=
                              Some ((case connectedPages (data existingNode) of
                                       None \<Rightarrow> [] | Some ps \<Rightarrow> ps) @ [pageNodeId])\<rparr>\<rparr>));
               edge = \<lparr>edge_id = pageNodeId @ js ''-'' @ conceptId,
                       source = pageNodeId, target = conceptId, edge_type = relates_to,
                       e_data = \<lparr>strength = 1, relationship = js ''contains_concept''\<rparr>\<rparr>
           in Inr (addGraphEdge s1 edge)))"

text \<open>
  The loop of \<open>updateKnowledgeGraph\<close> over the concepts. Every storage call commits
  at once, so when a concept raises, the loop stops with the storage reached so far;
  the second component is the exception that leaves the loop, if any. The \<open>k\<close>-th
  concept draws the position \<open>rnd k\<close>.
\<close>

fun processConcepts ::
  "(nat \<Rightarrow> real \<times> real) \<Rightarrow> nat \<Rightarrow> jsstring list \<Rightarrow> jsstring \<Rightarrow> Storage \<Rightarrow> Storage \<times> error option" where
  "processConcepts rnd k [] pageNodeId s = (s, None)"
| "processConcepts rnd k (concept # rest) pageNodeId s =
     (case processConceptNode (rnd k) concept pageNodeId s of
        Inl e \<Rightarrow> (s, Some e)
      | Inr s' \<Rightarrow> processConcepts rnd (Suc k) rest pageNodeId s')"

definition updateKnowledgeGraph ::
  "(nat \<Rightarrow> real \<times> real) \<Rightarrow> 'a CapturedContent_scheme \<Rightarrow> GeminiAnalysis \<Rightarrow> Storage \<Rightarrow> Storage \<times> error option" where
  "updateKnowledgeGraph rnd c a s =
     (case generateNodeId (url c) of
        Inl e \<Rightarrow> (s, Some e)
      | Inr pid \<Rightarrow>
          (let pageNode =
                 \<lparr>node_id = pid, node_type = Page,
                  data = \<lparr>label = title c, n_url = Some (url c), summary = Some (a_summary a),
                          n_timestamp = Some (timestamp c),
                          importance = calculateImportance c a,
                          n_domain = Some (domain (metadata c)),
                          n_contentType = Some (contentType (metadata c)),
                          connectedPages = None\<rparr>,
                  position = rnd 0\<rparr>
           in processConcepts rnd 1 (concepts a) (node_id pageNode) (addGraphNode s pageNode)))"

text \<open>
  \<open>processContent\<close>. \<open>geminiProcessor\<close> stands for the analysis client: its value at
  the content and the URL is what awaiting \<open>analyzeContent\<close> yields, \<open>None\<close> for
  \<open>null\<close>; it is consulted only when no archived record has the URL. The record to be
  stored is built, identifier included, before \<open>storeProcessedContent\<close> is called.
  The \<open>catch\<close> block only logs, so an exception ends the ingestion with the storage
  reached so far.
\<close>

definition processContent ::
  "(jsstring \<Rightarrow> jsstring \<Rightarrow> GeminiAnalysis option) \<Rightarrow> (nat \<Rightarrow> real \<times> real) \<Rightarrow>
   Storage \<Rightarrow> CapturedContent \<Rightarrow> Storage" where
  "processContent geminiProcessor rnd s c =
     (case findSimilarContent s (url c) of
        Some existingContent \<Rightarrow> s
      | None \<Rightarrow>
          (case geminiProcessor (content c) (url c) of
             None \<Rightarrow> s
           | Some a \<Rightarrow>
               (case generateNodeId (url c) of
                  Inl e \<Rightarrow> s
                | Inr nid \<Rightarrow>
                    (let s1 = storeProcessedContent s
                                \<lparr>url = url c, title = title c, content = content c,
                                 timestamp = timestamp c, metadata = metadata c,
                                 analysis = a, nodeId = nid\<rparr>
                     in fst (updateKnowledgeGraph rnd c a s1)))))"

section \<open>Configuration\<close>

text \<open>
  \<open>ConfigManager.getConfig\<close>; \<open>isDev\<close> is the value of
  \<open>process.env.NODE_ENV === 'development'\<close>.
\<close>

record Config =
  isDevelopment :: bool
  apiEndpoint :: jsstring
  rateLimitDelay :: int
  maxRetries :: int
  requestTimeout :: int

definition getConfig :: "bool \<Rightarrow> Config" where
  "getConfig isDev =
     \<lparr>isDevelopment = isDev,
      apiEndpoint = js ''https://generativelanguage.googleapis.com/v1beta/models/gemini-2.5-flash:generateContent'',
      rateLimitDelay = 1000,
      maxRetries = 3,
      requestTimeout = 30000\<rparr>"

section \<open>Analysis client\<close>

text \<open>
  A value read from JSON. A JavaScript value that may be \<open>undefined\<close> is a
  \<open>json option\<close>, with \<open>None\<close> for \<open>undefined\<close>.
\<close>

datatype json =
    JNull
  | JBool bool
  | JNum real
  | JStr jsstring
  | JArr "json list"
  | JObj "(jsstring \<times> json) list"

text \<open>
  Truthiness, reading the property \<open>k\<close> of a value that is neither \<open>null\<close> nor
  \<open>undefined\<close> (\<open>k\<close> is never an index or the name of a built-in property here; of
  a duplicated key the last entry counts), and reading index \<open>0\<close>.
\<close>

definition truthy :: "json option \<Rightarrow> bool" where
  "truthy v =
     (case v of
        None \<Rightarrow> False
      | Some JNull \<Rightarrow> False
      | Some (JBool b) \<Rightarrow> b
      | Some (JNum r) \<Rightarrow> r \<noteq> 0
      | Some (JStr s) \<Rightarrow> s \<noteq> []
      | Some (JArr xs) \<Rightarrow> True
      | Some (JObj kvs) \<Rightarrow> True)"

definition get_prop :: "jsstring \<Rightarrow> json \<Rightarrow> json option" where
  "get_prop k v = (case v of JObj kvs \<Rightarrow> map_of (rev kvs) k | _ \<Rightarrow> None)"

definition index0 :: "json \<Rightarrow> json option" where
  "index0 v =
     (case v of
        JArr xs \<Rightarrow> (case xs of [] \<Rightarrow> None | x # _ \<Rightarrow> Some x)
      | JStr s \<Rightarrow> (case s of [] \<Rightarrow> None | c # _ \<Rightarrow> Some (JStr [c]))
      | JObj kvs \<Rightarrow> map_of (rev kvs) (js ''0'')
      | _ \<Rightarrow> None)"

text \<open>
  Optional chaining: \<open>v?.k\<close> and \<open>v?.[0]\<close> are \<open>undefined\<close> when \<open>v\<close> is \<open>null\<close> or
  \<open>undefined\<close>.
\<close>

definition opt_chain :: "(json \<Rightarrow> json option) \<Rightarrow> json option \<Rightarrow> json option" where
  "opt_chain f v = (case v of None \<Rightarrow> None | Some JNull \<Rightarrow> None | Some w \<Rightarrow> f w)"

text \<open>
  The end of the queued task: the text at
  \<open>data.candidates[0].content.parts[0].text\<close>. Reading \<open>candidates\<close> of \<open>null\<close> is a
  \<open>TypeError\<close>; a falsy value anywhere on the path is the error
  \<open>Invalid response format from Gemini API\<close>.
\<close>

definition extractText :: "json \<Rightarrow> error + json" where
  "extractText d =
     (case d of
        JNull \<Rightarrow> Inl TypeError
      | _ \<Rightarrow>
          (let candidates = get_prop (js ''candidates'') d;
               text = opt_chain (get_prop (js ''text''))
                        (opt_chain index0
                          (opt_chain (get_prop (js ''parts''))
                            (opt_chain (get_prop (js ''content''))
                              (case candidates of None \<Rightarrow> None | Some cs \<Rightarrow> index0 cs))))
           in if truthy candidates \<and> truthy text
              then (case text of Some t \<Rightarrow> Inr t | None \<Rightarrow> Inl InvalidResponseFormat)
              else Inl InvalidResponseFormat))"

text \<open>
  What \<open>fetch\<close> and the reading of the body do is an input of the model: the fetch
  rejects, or it yields a response with a status and a body, the body being \<open>None\<close>
  when \<open>response.json()\<close> rejects.
\<close>

datatype fetch_outcome = NetworkFailure | Response nat "json option"

definition ok :: "nat \<Rightarrow> bool" where
  "ok status = (200 \<le> status \<and> status \<le> 299)"

text \<open>How the promise of \<open>callGeminiAPI\<close> settles: \<open>Inr\<close> resolved, \<open>Inl\<close> rejected.\<close>

definition settle :: "fetch_outcome \<Rightarrow> error + json" where
  "settle out =
     (case out of
        NetworkFailure \<Rightarrow> Inl FetchFailed
      | Response status body \<Rightarrow>
          if \<not> ok status then Inl (GeminiAPIError status)
          else (case body of None \<Rightarrow> Inl SyntaxError | Some d \<Rightarrow> extractText d))"

text \<open>
  The processor's state, and one queued call together with what the outside world
  does to it: how late the timer fires, how long the fetch takes and how it ends,
  how long reading the body takes. Times are milliseconds.
\<close>

record GeminiProcessor =
  apiKey :: jsstring
  config :: Config
  lastApiCall :: int

record QueuedCall =
  prompt :: jsstring
  timer_late :: nat
  fetch_ms :: nat
  outcome :: fetch_outcome
  json_ms :: nat

record CallLog =
  requested_at :: int
  settled_at :: int
  finished_at :: int
  settlement :: "error + json"

text \<open>
  The task that \<open>callGeminiAPI\<close> queues, run at clock time \<open>now\<close>: it waits while
  less than \<open>rateLimitDelay\<close> has passed since \<open>lastApiCall\<close>, issues the request, and
  sets \<open>lastApiCall\<close> once \<open>fetch\<close> has yielded a response; a rejected fetch goes to
  the \<open>catch\<close> block before the assignment. The whole body is inside
  \<open>try\<close>/\<open>catch\<close>, so the task itself never throws. The result is the log of the
  call, the processor and the clock.
\<close>

definition runTask :: "GeminiProcessor \<Rightarrow> int \<Rightarrow> QueuedCall \<Rightarrow> CallLog \<times> GeminiProcessor \<times> int" where
  "runTask gp now call =
     (let timeSinceLastCall = now - lastApiCall gp;
          start = (if timeSinceLastCall < rateLimitDelay (config gp)
                   then now + (rateLimitDelay (config gp) - timeSinceLastCall) + int (timer_late call)
                   else now);
          settled = start + int (fetch_ms call)
      in case outcome call of
           NetworkFailure \<Rightarrow>
             (\<lparr>requested_at = start, settled_at = settled, finished_at = settled,
               settlement = settle (outcome call)\<rparr>, gp, settled)
         | Response status body \<Rightarrow>
             (let gp' = gp\<lparr>lastApiCall := settled\<rparr>;
                  finished = (if ok status then settled + int (json_ms call) else settled)
              in (\<lparr>requested_at = start, settled_at = settled, finished_at = finished,
                   settlement = settle (outcome call)\<rparr>, gp', finished)))"

text \<open>
  \<open>processQueue\<close>: the single worker takes the queued calls from the front, one
  after the other, whatever the outcome of the one before. The list holds the calls
  in the order in which they were pushed.
\<close>

fun processQueue :: "GeminiProcessor \<Rightarrow> int \<Rightarrow> QueuedCall list \<Rightarrow> CallLog list \<times> GeminiProcessor \<times> int" where
  "processQueue gp now [] = ([], gp, now)"
| "processQueue gp now (task # rateLimitQueue) =
     (case runTask gp now task of
        (l, gp', now') \<Rightarrow>
          (case processQueue gp' now' rateLimitQueue of
             (ls, gp'', now'') \<Rightarrow> (l # ls, gp'', now'')))"











section \<open>Vocabulary of the proofs\<close>

text \<open>
  Names for the objects that \<open>processConceptNode\<close>, \<open>updateKnowledgeGraph\<close> and
  \<open>processContent\<close> build inline, for the list that \<open>updateGraphNode\<close> writes, and
  for the invariants of the node and edge collections.
\<close>

fun replace_first :: "('a \<Rightarrow> bool) \<Rightarrow> 'a \<Rightarrow> 'a list \<Rightarrow> 'a list" where
  "replace_first P y [] = []"
| "replace_first P y (x # xs) = (if P x then y # xs else x # replace_first P y xs)"

definition conceptNode :: "real \<times> real \<Rightarrow> jsstring \<Rightarrow> jsstring \<Rightarrow> jsstring \<Rightarrow> GraphNode" where
  "conceptNode pos concept pageNodeId conceptId =
     \<lparr>node_id = conceptId, node_type = Concept,
      data = \<lparr>label = concept, n_url = None, summary = None, n_timestamp = None,
              importance = 1, n_domain = None, n_contentType = None,
              connectedPages = Some [pageNodeId]\<rparr>,
      position = pos\<rparr>"

definition updatedNode :: "GraphNode \<Rightarrow> jsstring \<Rightarrow> GraphNode" where
  "updatedNode existingNode pageNodeId =
     existingNode\<lparr>data := (data existingNode)
       \<lparr>importance := importance (data existingNode) + 0.5,
        connectedPages :=
          Some ((case connectedPages (data existingNode) of
                   None \<Rightarrow> [] | Some ps \<Rightarrow> ps) @ [pageNodeId])\<rparr>\<rparr>"

definition conceptEdge :: "jsstring \<Rightarrow> jsstring \<Rightarrow> GraphEdge" where
  "conceptEdge pageNodeId conceptId =
     \<lparr>edge_id = pageNodeId @ js ''-'' @ conceptId,
      source = pageNodeId, target = conceptId, edge_type = relates_to,
      e_data = \<lparr>strength = 1, relationship = js ''contains_concept''\<rparr>\<rparr>"

definition upsertConcept :: "real \<times> real \<Rightarrow> jsstring \<Rightarrow> jsstring \<Rightarrow> jsstring \<Rightarrow> Storage \<Rightarrow> Storage" where
  "upsertConcept pos concept pageNodeId conceptId s =
     (case getGraphNode s conceptId of
        None \<Rightarrow> addGraphNode s (conceptNode pos concept pageNodeId conceptId)
      | Some existingNode \<Rightarrow> updateGraphNode s (updatedNode existingNode pageNodeId))"

definition page_inv :: "jsstring \<Rightarrow> jsstring \<Rightarrow> Storage \<Rightarrow> bool" where
  "page_inv pid u t = (\<exists>n. filter (\<lambda>m. node_id m = pid) (NODES t) = [n]
                          \<and> node_type n = Page \<and> n_url (data n) = Some u)"

definition conc_absent :: "jsstring \<Rightarrow> Storage \<Rightarrow> bool" where
  "conc_absent cid t = (filter (\<lambda>m. node_id m = cid) (NODES t) = [])"

definition conc_inv :: "jsstring \<Rightarrow> jsstring set \<Rightarrow> Storage \<Rightarrow> bool" where
  "conc_inv cid P t = (\<exists>n ps. filter (\<lambda>m. node_id m = cid) (NODES t) = [n]
                          \<and> node_type n = Concept \<and> connectedPages (data n) = Some ps \<and> P \<subseteq> set ps)"

definition conc_weak :: "jsstring \<Rightarrow> jsstring set \<Rightarrow> Storage \<Rightarrow> bool" where
  "conc_weak cid P t = ((conc_absent cid t \<and> P = {}) \<or> conc_inv cid P t)"

definition edge_pair :: "GraphEdge \<Rightarrow> jsstring \<times> jsstring" where
  "edge_pair e = (source e, target e)"

definition edge_wf :: "jsstring set \<Rightarrow> Storage \<Rightarrow> bool" where
  "edge_wf P t = ((\<forall>e \<in> set (EDGES t). source e \<in> P \<and> edge_id e = source e @ js ''-'' @ target e
                      \<and> edge_type e = relates_to)
                 \<and> distinct (map edge_pair (EDGES t)))"

definition has_edge :: "jsstring \<Rightarrow> jsstring \<Rightarrow> Storage \<Rightarrow> bool" where
  "has_edge p cid t = (\<exists>e \<in> set (EDGES t). source e = p \<and> target e = cid)"

definition pageNode :: "(nat \<Rightarrow> real \<times> real) \<Rightarrow> 'a CapturedContent_scheme \<Rightarrow> GeminiAnalysis \<Rightarrow> jsstring \<Rightarrow> GraphNode" where
  "pageNode rnd c a pid =
     \<lparr>node_id = pid, node_type = Page,
      data = \<lparr>label = title c, n_url = Some (url c), summary = Some (a_summary a),
              n_timestamp = Some (timestamp c), importance = calculateImportance c a,
              n_domain = Some (domain (metadata c)),
              n_contentType = Some (contentType (metadata c)), connectedPages = None\<rparr>,
      position = rnd 0\<rparr>"

definition processed :: "CapturedContent \<Rightarrow> GeminiAnalysis \<Rightarrow> jsstring \<Rightarrow> ProcessedContent" where
  "processed c a nid =
     \<lparr>url = url c, title = title c, content = content c, timestamp = timestamp c,
      metadata = metadata c, analysis = a, nodeId = nid\<rparr>"

section \<open>Example data\<close>

text \<open>Concrete analyses, captures, nodes, edges and storages used to evaluate the model.\<close>

definition an_1 :: GeminiAnalysis where
  "an_1 = \<lparr>concepts = [js ''Neural Networks''], a_summary = js ''A summary.'',
           a_contentType = js ''article'', author = None, mainTopic = js ''AI'',
           relatedTopics = [], confidence = 0.8\<rparr>"

definition gp_ok :: "jsstring \<Rightarrow> jsstring \<Rightarrow> GeminiAnalysis option" where
  "gp_ok text u = Some an_1"

definition gp_null :: "jsstring \<Rightarrow> jsstring \<Rightarrow> GeminiAnalysis option" where
  "gp_null text u = None"

definition rnd0 :: "nat \<Rightarrow> real \<times> real" where
  "rnd0 k = (0, 0)"

definition c_short :: CapturedContent where
  "c_short = \<lparr>url = js ''https://a.example/x'', title = js ''Short note'',
             content = js ''sixty words of text'', timestamp = 1000,
             metadata = \<lparr>domain = js ''a.example'', contentType = js ''article'', wordCount = 60\<rparr>\<rparr>"

definition node_A :: GraphNode where
  "node_A = \<lparr>node_id = js ''A'', node_type = Concept,
     data = \<lparr>label = js ''alpha'', n_url = None, summary = None, n_timestamp = None,
             importance = 1, n_domain = None, n_contentType = None, connectedPages = Some []\<rparr>,
     position = (0, 0)\<rparr>"

definition node_B :: GraphNode where
  "node_B = node_A\<lparr>node_id := js ''B''\<rparr>"

definition edge_1 :: GraphEdge where
  "edge_1 = \<lparr>edge_id = js ''P-C'', source = js ''P'', target = js ''C'', edge_type = relates_to,
     e_data = \<lparr>strength = 1, relationship = js ''contains_concept''\<rparr>\<rparr>"

definition edge_2 :: GraphEdge where
  "edge_2 = edge_1\<lparr>e_data := \<lparr>strength = 5, relationship = js ''other''\<rparr>\<rparr>"

definition rec_old :: ProcessedContent where
  "rec_old = \<lparr>url = js ''https://a.example/x'', title = js ''Old page'', content = js ''old text'',
             timestamp = 1000,
             metadata = \<lparr>domain = js ''a.example'', contentType = js ''article'', wordCount = 300\<rparr>,
             analysis = an_1, nodeId = js ''P''\<rparr>"

definition rec_new :: ProcessedContent where
  "rec_new = rec_old\<lparr>url := js ''https://b.example/y'', timestamp := 699999000, nodeId := js ''Q''\<rparr>"

definition node_P :: GraphNode where
  "node_P = \<lparr>node_id = js ''P'', node_type = Page,
     data = \<lparr>label = js ''Old page'', n_url = Some (js ''https://a.example/x''),
             summary = Some (js ''A summary.''), n_timestamp = Some 1000, importance = 1,
             n_domain = Some (js ''a.example''), n_contentType = Some (js ''article''),
             connectedPages = None\<rparr>,
     position = (0, 0)\<rparr>"

definition node_Q :: GraphNode where
  "node_Q = node_P\<lparr>node_id := js ''Q'', data := (data node_P)\<lparr>n_timestamp := Some 699999000\<rparr>\<rparr>"

definition node_C :: GraphNode where
  "node_C = \<lparr>node_id = js ''C'', node_type = Concept,
     data = \<lparr>label = js ''Neural Networks'', n_url = None, summary = None, n_timestamp = None,
             importance = 1, n_domain = None, n_contentType = None,
             connectedPages = Some [js ''P'']\<rparr>,
     position = (0, 0)\<rparr>"

definition st_aged :: Storage where
  "st_aged = \<lparr>CONTENT = [rec_new, rec_old], NODES = [node_P, node_C, node_Q],
              EDGES = [edge_1], LAST_CLEANUP = 0\<rparr>"

definition c_a :: CapturedContent where
  "c_a = \<lparr>url = js ''https://a.example/x'', title = js ''Page A'',
         content = js ''Text of page A about Neural Networks.'', timestamp = 1000,
         metadata = \<lparr>domain = js ''a.example'', contentType = js ''research'', wordCount = 500\<rparr>\<rparr>"

definition c_a' :: CapturedContent where
  "c_a' = c_a\<lparr>title := js ''Page A, later'', content := js ''Other text at the same address.'',
              timestamp := 2000\<rparr>"

definition c_b :: CapturedContent where
  "c_b = \<lparr>url = js ''https://b.example/y'', title = js ''Page B'',
         content = js ''Text of page B about neural networks.'', timestamp = 3000,
         metadata = \<lparr>domain = js ''b.example'', contentType = js ''article'', wordCount = 200\<rparr>\<rparr>"

definition an_2 :: GeminiAnalysis where
  "an_2 = an_1\<lparr>concepts := [js ''neural networks'']\<rparr>"

definition gp_case :: "jsstring \<Rightarrow> jsstring \<Rightarrow> GeminiAnalysis option" where
  "gp_case text u = (if u = js ''https://a.example/x'' then Some an_1 else Some an_2)"

definition gp0 :: GeminiProcessor where
  "gp0 = \<lparr>apiKey = js ''AIzaSyExampleExampleExample'', config = getConfig False, lastApiCall = 0\<rparr>"

definition envelope_of :: "json \<Rightarrow> json" where
  "envelope_of v = JObj [(js ''candidates'', JArr [JObj [(js ''content'',
      JObj [(js ''parts'', JArr [JObj [(js ''text'', v)]])])]])]"

definition envelope :: "jsstring \<Rightarrow> json" where
  "envelope t = envelope_of (JStr t)"

definition body_ok :: json where
  "body_ok = envelope (js ''```json{}```'')"




definition call_fail :: QueuedCall where
  "call_fail = \<lparr>prompt = js ''first'', timer_late = 0, fetch_ms = 40, outcome = NetworkFailure, json_ms = 0\<rparr>"

definition call_ok :: QueuedCall where
  "call_ok = \<lparr>prompt = js ''second'', timer_late = 0, fetch_ms = 60, outcome = Response 200 (Some body_ok), json_ms = 5\<rparr>"


section \<open>Properties of the storage manager\<close>

lemma findIndex_ge: "findIndex P xs \<ge> -1"
  by (induction xs) (auto simp: Let_def)

lemma findIndex_absent: "(findIndex P xs = -1) = (\<forall>x \<in> set xs. \<not> P x)"
proof (induction xs)
  case Nil
  show ?case by simp
next
  case (Cons x xs)
  have "findIndex P xs \<ge> -1" by (rule findIndex_ge)
  with Cons show ?case by (auto simp: Let_def)
qed

lemma find_None_conv: "(find P xs = None) = (\<forall>x \<in> set xs. \<not> P x)"
  by (induction xs) auto

text \<open>
  C10: \<open>updateGraphNode\<close> with a node whose identifier no stored node has leaves the
  storage unchanged, so the node is not inserted; \<open>addGraphNode\<close> on the same input
  appends the node.
\<close>

theorem updateGraphNode_absent_unchanged:
  assumes "\<forall>n \<in> set (NODES s). node_id n \<noteq> node_id node"
  shows "updateGraphNode s node = s \<and> NODES (addGraphNode s node) = NODES s @ [node]"
proof -
  from assms have "findIndex (\<lambda>n. node_id n = node_id node) (NODES s) = -1"
    by (simp add: findIndex_absent)
  then have upd: "updateGraphNode s node = s"
    by (simp add: updateGraphNode_def Let_def)
  from assms have "filter (\<lambda>n. node_id n \<noteq> node_id node) (NODES s) = NODES s"
    by (simp add: filter_id_conv)
  then have "NODES (addGraphNode s node) = NODES s @ [node]"
    by (simp add: addGraphNode_def Let_def)
  with upd show ?thesis by simp
qed

text \<open>C10 at a storage holding node \<open>A\<close>, updated and added with node \<open>B\<close>.\<close>

theorem updateGraphNode_absent_unchanged_witness:
  "node_id node_A \<noteq> node_id node_B
   \<and> updateGraphNode (empty_storage\<lparr>NODES := [node_A]\<rparr>) node_B = empty_storage\<lparr>NODES := [node_A]\<rparr>
   \<and> NODES (addGraphNode (empty_storage\<lparr>NODES := [node_A]\<rparr>) node_B) = [node_A, node_B]"
proof -
  have d: "node_id node_A \<noteq> node_id node_B"
    by (simp add: node_A_def node_B_def js_def)
  then have h: "\<forall>n \<in> set (NODES (empty_storage\<lparr>NODES := [node_A]\<rparr>)). node_id n \<noteq> node_id node_B"
    by simp
  from updateGraphNode_absent_unchanged [OF h] d show ?thesis by simp
qed

subsection \<open>Edges\<close>

lemma addGraphEdge_present:
  "find (\<lambda>e. edge_id e = edge_id edge) (EDGES s) \<noteq> None \<Longrightarrow> addGraphEdge s edge = s"
  by (auto simp: addGraphEdge_def Let_def)

lemma addGraphEdge_EDGES:
  "EDGES (addGraphEdge s edge) =
     (if \<exists>e \<in> set (EDGES s). edge_id e = edge_id edge then EDGES s else EDGES s @ [edge])"
proof (cases "find (\<lambda>e. edge_id e = edge_id edge) (EDGES s)")
  case None
  then have "\<not> (\<exists>e \<in> set (EDGES s). edge_id e = edge_id edge)" by (simp add: find_None_conv)
  moreover from None have "EDGES (addGraphEdge s edge) = EDGES s @ [edge]"
    by (simp add: addGraphEdge_def Let_def)
  ultimately show ?thesis by simp
next
  case (Some x)
  then have "find (\<lambda>e. edge_id e = edge_id edge) (EDGES s) \<noteq> None" by simp
  then have "\<exists>e \<in> set (EDGES s). edge_id e = edge_id edge" by (simp add: find_None_conv)
  with Some show ?thesis by (simp add: addGraphEdge_def Let_def)
qed

lemma addGraphEdge_distinct:
  "distinct (map edge_id (EDGES s)) \<Longrightarrow> distinct (map edge_id (EDGES (addGraphEdge s edge)))"
  by (auto simp: addGraphEdge_EDGES)

lemma distinct_map_filter_le1:
  "distinct (map f xs) \<Longrightarrow> length (filter (\<lambda>x. f x = k) xs) \<le> 1"
  by (induction xs) (auto simp: filter_empty_conv image_iff)

lemma distinct_map_filter_eq1:
  assumes d: "distinct (map f xs)" and m: "x \<in> set xs"
  shows "length (filter (\<lambda>y. f y = f x) xs) = 1"
proof -
  from m have "filter (\<lambda>y. f y = f x) xs \<noteq> []" by (auto simp: filter_empty_conv)
  then have "length (filter (\<lambda>y. f y = f x) xs) \<ge> 1" by (cases "filter (\<lambda>y. f y = f x) xs") auto
  with distinct_map_filter_le1 [OF d, of "f x"] show ?thesis by simp
qed

subsection \<open>Eviction\<close>

text \<open>
  C5 as stated fails: the page node \<open>P\<close>, of timestamp 1000, is older than the
  cutoff and is removed by the pass, and the edge from \<open>P\<close> to \<open>C\<close> is still stored
  afterwards.
\<close>

theorem clearOldData_dangling_edge:
  "node_P \<in> set (NODES st_aged) \<and> node_type node_P = Page
   \<and> n_timestamp (data node_P) = Some 1000 \<and> 1000 < 700000000 - default_maxAge
   \<and> getGraphNode (clearOldData 700000000 700000001 default_maxAge st_aged) (node_id node_P) = None
   \<and> edge_1 \<in> set (EDGES (clearOldData 700000000 700000001 default_maxAge st_aged))
   \<and> source edge_1 = node_id node_P"
  by (simp add: st_aged_def node_P_def node_C_def node_Q_def edge_1_def clearOldData_def
      getGraphNode_def default_maxAge_def js_def Let_def)

text \<open>
  C5, amended: after \<open>clearOldData\<close> every archived record has a timestamp above
  the cutoff \<open>now - maxAge\<close>, and so has every node that carries a timestamp other
  than \<open>0\<close>; the edges are the edges from before the pass.
\<close>

theorem clearOldData_evicts:
  "(\<forall>item \<in> set (CONTENT (clearOldData now now' maxAge s)). timestamp item > now - maxAge)
   \<and> (\<forall>node \<in> set (NODES (clearOldData now now' maxAge s)).
        \<forall>t. n_timestamp (data node) = Some t \<and> t \<noteq> 0 \<longrightarrow> t > now - maxAge)
   \<and> EDGES (clearOldData now now' maxAge s) = EDGES s"
  by (auto simp: clearOldData_def Let_def)

text \<open>The amended C5 at a storage with an old and a recent page.\<close>

theorem clearOldData_evicts_witness:
  "rec_new \<in> set (CONTENT (clearOldData 700000000 700000001 default_maxAge st_aged))
   \<and> timestamp rec_new > 700000000 - default_maxAge
   \<and> node_Q \<in> set (NODES (clearOldData 700000000 700000001 default_maxAge st_aged))
   \<and> n_timestamp (data node_Q) = Some 699999000
   \<and> (699999000 :: int) > 700000000 - default_maxAge
   \<and> EDGES (clearOldData 700000000 700000001 default_maxAge st_aged) = [edge_1]"
proof -
  have c: "rec_new \<in> set (CONTENT (clearOldData 700000000 700000001 default_maxAge st_aged))"
    by (simp add: st_aged_def rec_new_def rec_old_def clearOldData_def default_maxAge_def Let_def)
  have n: "node_Q \<in> set (NODES (clearOldData 700000000 700000001 default_maxAge st_aged))"
    by (simp add: st_aged_def node_Q_def node_P_def clearOldData_def default_maxAge_def Let_def)
  have t: "n_timestamp (data node_Q) = Some 699999000 \<and> (699999000 :: int) \<noteq> 0"
    by (simp add: node_Q_def)
  have e: "EDGES st_aged = [edge_1]" by (simp add: st_aged_def)
  from clearOldData_evicts [of 700000000 700000001 default_maxAge st_aged] c n t e
  show ?thesis by auto
qed

section \<open>Lemmas on the graph update\<close>

lemma conceptNode_id [simp]: "node_id (conceptNode pos c p cid) = cid"
  by (simp add: conceptNode_def)

lemma processConceptNode_Inr:
  assumes "generateNodeId (js ''concept:'' @ concept) = Inr cid"
  shows "processConceptNode pos concept p s
           = Inr (addGraphEdge (upsertConcept pos concept p cid s) (conceptEdge p cid))"
  using assms
  by (simp add: processConceptNode_def upsertConcept_def conceptNode_def updatedNode_def
      conceptEdge_def Let_def split: option.splits)

lemma processConceptNode_Inl:
  assumes "generateNodeId (js ''concept:'' @ concept) = Inl e"
  shows "processConceptNode pos concept p s = Inl e"
  using assms by (simp add: processConceptNode_def)

lemma findIndex_replace_first:
  "findIndex P xs \<noteq> -1 \<Longrightarrow> xs[nat (findIndex P xs) := y] = replace_first P y xs"
proof (induction xs)
  case Nil
  then show ?case by simp
next
  case (Cons x xs)
  show ?case
  proof (cases "P x")
    case True
    then show ?thesis by simp
  next
    case False
    with Cons.prems have ne: "findIndex P xs \<noteq> -1" by (auto simp: Let_def split: if_splits)
    have ge: "findIndex P xs \<ge> -1" by (rule findIndex_ge)
    with ne have "findIndex P xs \<ge> 0" by linarith
    then have "nat (findIndex P xs + 1) = Suc (nat (findIndex P xs))" by linarith
    with False ne Cons.IH show ?thesis by (simp add: Let_def)
  qed
qed

lemma replace_first_absent: "\<forall>x \<in> set xs. \<not> P x \<Longrightarrow> replace_first P y xs = xs"
  by (induction xs) auto

lemma updateGraphNode_NODES:
  "NODES (updateGraphNode s node) = replace_first (\<lambda>n. node_id n = node_id node) node (NODES s)"
proof (cases "findIndex (\<lambda>n. node_id n = node_id node) (NODES s) = -1")
  case True
  then have "\<forall>x \<in> set (NODES s). \<not> node_id x = node_id node" by (simp add: findIndex_absent)
  then have "replace_first (\<lambda>n. node_id n = node_id node) node (NODES s) = NODES s"
    by (rule replace_first_absent)
  with True show ?thesis by (simp add: updateGraphNode_def Let_def)
next
  case False
  then show ?thesis by (simp add: updateGraphNode_def Let_def findIndex_replace_first)
qed

lemma updateGraphNode_other [simp]:
  "EDGES (updateGraphNode s node) = EDGES s" "CONTENT (updateGraphNode s node) = CONTENT s"
  by (simp_all add: updateGraphNode_def Let_def)

lemma addGraphNode_other [simp]:
  "EDGES (addGraphNode s node) = EDGES s" "CONTENT (addGraphNode s node) = CONTENT s"
  by (simp_all add: addGraphNode_def Let_def)

lemma addGraphNode_NODES:
  "NODES (addGraphNode s node) = filter (\<lambda>n. node_id n \<noteq> node_id node) (NODES s) @ [node]"
  by (simp add: addGraphNode_def Let_def)

lemma addGraphEdge_other [simp]:
  "NODES (addGraphEdge s e) = NODES s" "CONTENT (addGraphEdge s e) = CONTENT s"
  by (simp_all add: addGraphEdge_def Let_def split: option.splits)

lemma storeProcessedContent_other [simp]:
  "NODES (storeProcessedContent s c) = NODES s" "EDGES (storeProcessedContent s c) = EDGES s"
  by (simp_all add: storeProcessedContent_def Let_def)

lemma filter_replace_first_other:
  "X \<noteq> k \<Longrightarrow> f y = k \<Longrightarrow>
   filter (\<lambda>n. f n = X) (replace_first (\<lambda>n. f n = k) y xs) = filter (\<lambda>n. f n = X) xs"
  by (induction xs) auto

lemma filter_replace_first_same:
  "f y = k \<Longrightarrow>
   filter (\<lambda>n. f n = k) (replace_first (\<lambda>n. f n = k) y xs)
     = (case filter (\<lambda>n. f n = k) xs of [] \<Rightarrow> [] | z # zs \<Rightarrow> y # zs)"
  by (induction xs) auto

lemma find_filter_hd: "find P xs = (case filter P xs of [] \<Rightarrow> None | z # zs \<Rightarrow> Some z)"
  by (induction xs) auto

lemma map_replace_first: "(\<And>x. P x \<Longrightarrow> f x = f y) \<Longrightarrow> map f (replace_first P y xs) = map f xs"
  by (induction xs) auto

lemma upsertConcept_other [simp]:
  "EDGES (upsertConcept pos c p cid s) = EDGES s" "CONTENT (upsertConcept pos c p cid s) = CONTENT s"
  by (simp_all add: upsertConcept_def split: option.splits)

lemma updatedNode_id [simp]: "node_id (updatedNode n p) = node_id n"
  by (simp add: updatedNode_def)

lemma getGraphNode_id: "getGraphNode s cid = Some n \<Longrightarrow> node_id n = cid"
  by (auto simp: getGraphNode_def dest: find_Some_iff[THEN iffD1])

lemma upsertConcept_filter_other:
  assumes "X \<noteq> cid"
  shows "filter (\<lambda>n. node_id n = X) (NODES (upsertConcept pos c p cid s))
           = filter (\<lambda>n. node_id n = X) (NODES s)"
proof (cases "getGraphNode s cid")
  case None
  with assms show ?thesis
    by (simp add: upsertConcept_def addGraphNode_NODES conceptNode_def)
       (metis (mono_tags, lifting) filter_cong)
next
  case (Some n)
  then have "node_id n = cid" by (rule getGraphNode_id)
  with Some assms show ?thesis
    by (simp add: upsertConcept_def updateGraphNode_NODES filter_replace_first_other)
qed

lemma upsertConcept_filter_same:
  "filter (\<lambda>n. node_id n = cid) (NODES (upsertConcept pos c p cid s))
     = (case filter (\<lambda>n. node_id n = cid) (NODES s) of
          [] \<Rightarrow> [conceptNode pos c p cid]
        | z # zs \<Rightarrow> updatedNode z p # zs)"
proof (cases "filter (\<lambda>n. node_id n = cid) (NODES s)")
  case Nil
  then have g: "getGraphNode s cid = None" by (simp add: getGraphNode_def find_filter_hd)
  from Nil have "filter (\<lambda>n. node_id n = cid) (filter (\<lambda>n. node_id n \<noteq> cid) (NODES s)) = []"
    by (simp add: filter_empty_conv)
  with g Nil show ?thesis
    by (simp add: upsertConcept_def addGraphNode_NODES conceptNode_def)
next
  case (Cons z zs)
  then have g: "getGraphNode s cid = Some z" by (simp add: getGraphNode_def find_filter_hd)
  then have "node_id z = cid" by (rule getGraphNode_id)
  with g Cons show ?thesis
    by (simp add: upsertConcept_def updateGraphNode_NODES filter_replace_first_same)
qed

lemma processConceptNode_cases:
  assumes "processConceptNode pos c p s = Inr s'"
  obtains cid where "generateNodeId (js ''concept:'' @ c) = Inr cid"
    and "s' = addGraphEdge (upsertConcept pos c p cid s) (conceptEdge p cid)"
proof (cases "generateNodeId (js ''concept:'' @ c)")
  case (Inl e)
  with assms show ?thesis by (simp add: processConceptNode_Inl)
next
  case (Inr cid)
  with assms that show ?thesis by (simp add: processConceptNode_Inr)
qed

lemma processConcepts_CONTENT: "CONTENT (fst (processConcepts rnd k cs p s)) = CONTENT s"
proof (induction cs arbitrary: k s)
  case Nil
  show ?case by simp
next
  case (Cons c cs)
  show ?case
  proof (cases "processConceptNode (rnd k) c p s")
    case (Inl e)
    then show ?thesis by simp
  next
    case (Inr s')
    then have "CONTENT s' = CONTENT s" by (elim processConceptNode_cases) simp
    with Inr Cons.IH [of "Suc k" s'] show ?thesis by simp
  qed
qed

lemma updateKnowledgeGraph_CONTENT: "CONTENT (fst (updateKnowledgeGraph rnd c a s)) = CONTENT s"
  by (simp add: updateKnowledgeGraph_def Let_def processConcepts_CONTENT split: sum.splits)

lemma updatedNode_fields [simp]:
  "node_type (updatedNode n p) = node_type n" "n_url (data (updatedNode n p)) = n_url (data n)"
  by (simp_all add: updatedNode_def)

lemma upsertConcept_page_inv:
  assumes "page_inv pid u s"
  shows "page_inv pid u (upsertConcept pos c p cid s)"
proof (cases "cid = pid")
  case True
  from assms obtain n where n: "filter (\<lambda>m. node_id m = pid) (NODES s) = [n]"
    "node_type n = Page" "n_url (data n) = Some u" by (auto simp: page_inv_def)
  from n(1) True have "filter (\<lambda>m. node_id m = pid) (NODES (upsertConcept pos c p cid s))
      = [updatedNode n p]" by (simp add: upsertConcept_filter_same)
  with n(2,3) show ?thesis by (simp add: page_inv_def)
next
  case False
  then have "pid \<noteq> cid" by simp
  from upsertConcept_filter_other [OF this] assms show ?thesis by (simp add: page_inv_def)
qed

lemma processConceptNode_page_inv:
  assumes "page_inv pid u s" and "processConceptNode pos c p s = Inr s'"
  shows "page_inv pid u s'"
proof -
  from assms(2) obtain cid where "s' = addGraphEdge (upsertConcept pos c p cid s) (conceptEdge p cid)"
    by (rule processConceptNode_cases)
  with upsertConcept_page_inv [OF assms(1), of pos c p cid] show ?thesis
    by (simp add: page_inv_def)
qed

lemma processConcepts_page_inv:
  "page_inv pid u s \<Longrightarrow> page_inv pid u (fst (processConcepts rnd k cs p s))"
proof (induction cs arbitrary: k s)
  case Nil
  then show ?case by simp
next
  case (Cons c cs)
  show ?case
  proof (cases "processConceptNode (rnd k) c p s")
    case (Inl e)
    with Cons.prems show ?thesis by simp
  next
    case (Inr s')
    with Cons.prems have "page_inv pid u s'" by (auto intro: processConceptNode_page_inv)
    with Inr Cons.IH [of s' "Suc k"] show ?thesis by simp
  qed
qed

lemma addGraphNode_filter_same:
  "filter (\<lambda>m. node_id m = node_id node) (NODES (addGraphNode s node)) = [node]"
  by (simp add: addGraphNode_NODES filter_empty_conv)

lemma updateKnowledgeGraph_page_inv:
  assumes "generateNodeId (url c) = Inr pid"
  shows "page_inv pid (url c) (fst (updateKnowledgeGraph rnd c a s))"
proof -
  let ?pageNode = "\<lparr>node_id = pid, node_type = Page,
          data = \<lparr>label = title c, n_url = Some (url c), summary = Some (a_summary a),
                  n_timestamp = Some (timestamp c), importance = calculateImportance c a,
                  n_domain = Some (domain (metadata c)),
                  n_contentType = Some (contentType (metadata c)), connectedPages = None\<rparr>,
          position = rnd 0\<rparr>"
  have "filter (\<lambda>m. node_id m = pid) (NODES (addGraphNode s ?pageNode)) = [?pageNode]"
    using addGraphNode_filter_same [of ?pageNode s] by simp
  then have "page_inv pid (url c) (addGraphNode s ?pageNode)" by (simp add: page_inv_def)
  then have "page_inv pid (url c) (fst (processConcepts rnd 1 (concepts a) pid (addGraphNode s ?pageNode)))"
    by (rule processConcepts_page_inv)
  with assms show ?thesis by (simp add: updateKnowledgeGraph_def Let_def)
qed

lemma store_filter_url:
  "filter (\<lambda>i. url i = u) (sort_key f (filter (\<lambda>i. url i \<noteq> u) xs @ [c])) = (if url c = u then [c] else [])"
proof -
  have "filter (\<lambda>i. url i = u) (filter (\<lambda>i. url i \<noteq> u) xs) = []" by (simp add: filter_empty_conv)
  then show ?thesis by (simp add: filter_sort)
qed

lemma length_filter_take_le: "length (filter P (take n xs)) \<le> length (filter P xs)"
proof -
  have "length (filter P xs) = length (filter P (take n xs)) + length (filter P (drop n xs))"
    by (metis append_take_drop_id filter_append length_append)
  then show ?thesis by simp
qed

lemma storeProcessedContent_count_le:
  "length (filter (\<lambda>i. url i = url c) (CONTENT (storeProcessedContent s c))) \<le> 1"
proof -
  have "length (filter (\<lambda>i. url i = url c) (CONTENT (storeProcessedContent s c)))
          \<le> length (filter (\<lambda>i. url i = url c)
               (sort_key (\<lambda>item. - timestamp item) (filter (\<lambda>i. url i \<noteq> url c) (CONTENT s) @ [c])))"
    by (simp add: storeProcessedContent_def Let_def length_filter_take_le)
  then show ?thesis by (simp add: store_filter_url)
qed

lemma find_Some_filter_ge1: "find P xs \<noteq> None \<Longrightarrow> length (filter P xs) \<ge> 1"
  by (cases "filter P xs") (auto simp: find_filter_hd)

lemma length_b64chars: "length b64chars = 64"
  by (simp add: b64chars_def js_def)

lemma dash_notin_b64chars: "45 \<notin> set b64chars"
  by (simp add: b64chars_def js_def)

lemma b64_no_dash: "i < 64 \<Longrightarrow> b64 i \<noteq> 45"
proof -
  assume "i < 64"
  then have "b64chars ! i \<in> set b64chars" by (simp add: length_b64chars)
  with dash_notin_b64chars show ?thesis by (auto simp: b64_def)
qed

lemma encode_no_dash: "list_all (\<lambda>c. c \<le> 255) bs \<Longrightarrow> 45 \<notin> set (encode bs)"
proof (induction bs rule: encode.induct)
  case (1 a b c r)
  then have "a div 4 < 64" "(a mod 4) * 16 + b div 16 < 64" "(b mod 16) * 4 + c div 64 < 64" "c mod 64 < 64"
    by auto
  with 1 show ?case by (simp add: b64_no_dash)
next
  case (2 a b)
  then have "a div 4 < 64" "(a mod 4) * 16 + b div 16 < 64" "(b mod 16) * 4 < 64"
    by auto
  then show ?case by (simp add: b64_no_dash)
next
  case (3 a)
  then have "a div 4 < 64" "(a mod 4) * 16 < 64" by auto
  then show ?case by (simp add: b64_no_dash)
next
  case 4
  show ?case by simp
qed

lemma generateNodeId_Inr_iff:
  "(\<exists>p. generateNodeId u = Inr p) = list_all (\<lambda>c. c \<le> 255) u"
  by (simp add: generateNodeId_def btoa_def)

lemma generateNodeId_no_dash:
  assumes "generateNodeId u = Inr p"
  shows "45 \<notin> set p"
proof -
  from assms have l: "list_all (\<lambda>c. c \<le> 255) u"
    by (simp add: generateNodeId_def btoa_def split: if_splits)
  with assms have "p = take 16 (filter (\<lambda>c. c \<notin> set (js ''+/='')) (encode u))"
    by (simp add: generateNodeId_def btoa_def)
  moreover from l have "45 \<notin> set (encode u)" by (rule encode_no_dash)
  ultimately show ?thesis by (auto dest: in_set_takeD)
qed

lemma append_sep_unique:
  "x \<notin> set a \<Longrightarrow> x \<notin> set b \<Longrightarrow> a @ x # r = b @ x # r' \<Longrightarrow> a = b \<and> r = r'"
proof (induction a arbitrary: b)
  case Nil
  then show ?case by (cases b) auto
next
  case (Cons y a)
  then show ?case by (cases b) auto
qed

lemma concept_label_ok:
  "list_all (\<lambda>x. x \<le> 255) c \<Longrightarrow> \<exists>cid. generateNodeId (js ''concept:'' @ c) = Inr cid"
  by (simp add: generateNodeId_Inr_iff js_def)

lemma processConcepts_preserves:
  assumes "I s"
      and step: "\<And>pos c t t'. I t \<Longrightarrow> processConceptNode pos c p t = Inr t' \<Longrightarrow> I t'"
  shows "I (fst (processConcepts rnd k cs p s))"
  using assms(1)
proof (induction cs arbitrary: k s)
  case Nil
  then show ?case by simp
next
  case (Cons c cs)
  show ?case
  proof (cases "processConceptNode (rnd k) c p s")
    case (Inl e)
    with Cons.prems show ?thesis by simp
  next
    case (Inr s')
    with Cons.prems have "I s'" by (auto intro: step)
    with Inr Cons.IH [of s' "Suc k"] show ?thesis by simp
  qed
qed

lemma processConcepts_establishes:
  assumes "I s" and "L \<in> set cs"
      and ok: "\<forall>c \<in> set cs. list_all (\<lambda>x. x \<le> 255) c"
      and stepI: "\<And>pos c t t'. I t \<Longrightarrow> processConceptNode pos c p t = Inr t' \<Longrightarrow> I t'"
      and stepJ: "\<And>pos c t t'. J t \<Longrightarrow> processConceptNode pos c p t = Inr t' \<Longrightarrow> J t'"
      and est: "\<And>pos t t'. I t \<Longrightarrow> processConceptNode pos L p t = Inr t' \<Longrightarrow> J t'"
  shows "J (fst (processConcepts rnd k cs p s))"
  using assms(1,2,3)
proof (induction cs arbitrary: k s)
  case Nil
  then show ?case by simp
next
  case (Cons c cs)
  from Cons.prems(3) have "list_all (\<lambda>x. x \<le> 255) c" by simp
  then obtain cid where "generateNodeId (js ''concept:'' @ c) = Inr cid"
    using concept_label_ok by blast
  then obtain s' where s': "processConceptNode (rnd k) c p s = Inr s'"
    by (simp add: processConceptNode_Inr)
  show ?case
  proof (cases "c = L")
    case True
    with s' Cons.prems(1) have "J s'" by (auto intro: est)
    then have "J (fst (processConcepts rnd (Suc k) cs p s'))"
      using stepJ by (rule processConcepts_preserves)
    with s' show ?thesis by simp
  next
    case False
    with Cons.prems(2) have m: "L \<in> set cs" by simp
    from s' Cons.prems(1) have i: "I s'" by (auto intro: stepI)
    from Cons.prems(3) have o: "\<forall>c \<in> set cs. list_all (\<lambda>x. x \<le> 255) c" by simp
    from i m o have "J (fst (processConcepts rnd (Suc k) cs p s'))" by (rule Cons.IH)
    with s' show ?thesis by simp
  qed
qed

lemma updatedNode_pages:
  "connectedPages (data (updatedNode n p))
     = Some ((case connectedPages (data n) of None \<Rightarrow> [] | Some ps \<Rightarrow> ps) @ [p])"
  by (simp add: updatedNode_def)

lemma upsertConcept_conc_inv_same:
  assumes "conc_inv cid P s"
  shows "conc_inv cid (insert p P) (upsertConcept pos c p cid s)"
proof -
  from assms obtain n ps where n: "filter (\<lambda>m. node_id m = cid) (NODES s) = [n]"
    "node_type n = Concept" "connectedPages (data n) = Some ps" "P \<subseteq> set ps"
    by (auto simp: conc_inv_def)
  from n(1) have f: "filter (\<lambda>m. node_id m = cid) (NODES (upsertConcept pos c p cid s)) = [updatedNode n p]"
    by (simp add: upsertConcept_filter_same)
  from n(3) have c: "connectedPages (data (updatedNode n p)) = Some (ps @ [p])"
    by (simp add: updatedNode_pages)
  from n(4) have i: "insert p P \<subseteq> set (ps @ [p])" by auto
  from n(2) have t: "node_type (updatedNode n p) = Concept" by simp
  from f t c i show ?thesis unfolding conc_inv_def by blast
qed

lemma upsertConcept_conc_absent_same:
  assumes "conc_absent cid s"
  shows "conc_inv cid {p} (upsertConcept pos c p cid s)"
proof -
  from assms have "filter (\<lambda>m. node_id m = cid) (NODES (upsertConcept pos c p cid s))
      = [conceptNode pos c p cid]"
    by (simp add: upsertConcept_filter_same conc_absent_def)
  then show ?thesis by (simp add: conc_inv_def conceptNode_def)
qed

lemma conc_inv_mono: "conc_inv cid P s \<Longrightarrow> Q \<subseteq> P \<Longrightarrow> conc_inv cid Q s"
  by (auto simp: conc_inv_def)

lemma upsertConcept_conc_inv:
  assumes "conc_inv cid P s"
  shows "conc_inv cid P (upsertConcept pos c p cid' s)"
proof (cases "cid' = cid")
  case True
  with upsertConcept_conc_inv_same [OF assms, of p pos c] show ?thesis
    by (auto intro: conc_inv_mono)
next
  case False
  then have "cid \<noteq> cid'" by simp
  from upsertConcept_filter_other [OF this] assms show ?thesis by (simp add: conc_inv_def)
qed

lemma upsertConcept_conc_weak:
  assumes "conc_weak cid P s"
  shows "conc_weak cid P (upsertConcept pos c p cid' s)"
proof (cases "conc_inv cid P s")
  case True
  then show ?thesis by (simp add: conc_weak_def upsertConcept_conc_inv)
next
  case False
  with assms have a: "conc_absent cid s" and P: "P = {}" by (auto simp: conc_weak_def)
  show ?thesis
  proof (cases "cid' = cid")
    case True
    from upsertConcept_conc_absent_same [OF a, of p pos c] True P show ?thesis
      by (auto simp: conc_weak_def intro: conc_inv_mono)
  next
    case False
    then have "cid \<noteq> cid'" by simp
    from upsertConcept_filter_other [OF this] a P show ?thesis
      by (simp add: conc_weak_def conc_absent_def)
  qed
qed

lemma upsertConcept_conc_weak_same:
  assumes "conc_weak cid P s"
  shows "conc_inv cid (insert p P) (upsertConcept pos c p cid s)"
  using assms upsertConcept_conc_absent_same [of cid s p pos c]
    upsertConcept_conc_inv_same [of cid P s p pos c]
  by (auto simp: conc_weak_def)

lemma conc_addGraphEdge [simp]:
  "conc_inv cid P (addGraphEdge s e) = conc_inv cid P s"
  "conc_weak cid P (addGraphEdge s e) = conc_weak cid P s"
  by (simp_all add: conc_inv_def conc_weak_def conc_absent_def)

lemma processConceptNode_conc_inv:
  "conc_inv cid P s \<Longrightarrow> processConceptNode pos c p s = Inr s' \<Longrightarrow> conc_inv cid P s'"
  by (elim processConceptNode_cases) (simp add: upsertConcept_conc_inv)

lemma processConceptNode_conc_weak:
  "conc_weak cid P s \<Longrightarrow> processConceptNode pos c p s = Inr s' \<Longrightarrow> conc_weak cid P s'"
  by (elim processConceptNode_cases) (simp add: upsertConcept_conc_weak)

lemma processConceptNode_conc_est:
  assumes "generateNodeId (js ''concept:'' @ L) = Inr cid"
      and "conc_weak cid P s" and "processConceptNode pos L p s = Inr s'"
  shows "conc_inv cid (insert p P) s'"
  using assms by (auto simp: processConceptNode_Inr upsertConcept_conc_weak_same)

lemma processConcepts_conc:
  assumes "generateNodeId (js ''concept:'' @ L) = Inr cid"
      and "conc_weak cid P s" and "L \<in> set cs"
      and "\<forall>c \<in> set cs. list_all (\<lambda>x. x \<le> 255) c"
  shows "conc_inv cid (insert p P) (fst (processConcepts rnd k cs p s))"
  using assms(2,3,4)
proof (rule processConcepts_establishes [where I = "conc_weak cid P"])
  show "\<And>pos c t t'. conc_weak cid P t \<Longrightarrow> processConceptNode pos c p t = Inr t' \<Longrightarrow> conc_weak cid P t'"
    by (rule processConceptNode_conc_weak)
  show "\<And>pos c t t'. conc_inv cid (insert p P) t \<Longrightarrow> processConceptNode pos c p t = Inr t'
          \<Longrightarrow> conc_inv cid (insert p P) t'"
    by (rule processConceptNode_conc_inv)
  show "\<And>pos t t'. conc_weak cid P t \<Longrightarrow> processConceptNode pos L p t = Inr t'
          \<Longrightarrow> conc_inv cid (insert p P) t'"
    using assms(1) by (rule processConceptNode_conc_est)
qed

lemma conceptEdge_fields [simp]:
  "source (conceptEdge p cid) = p" "target (conceptEdge p cid) = cid"
  "edge_id (conceptEdge p cid) = p @ js ''-'' @ cid" "edge_type (conceptEdge p cid) = relates_to"
  by (simp_all add: conceptEdge_def)

lemma addGraphEdge_edge_wf:
  assumes "edge_wf P s" and "p \<in> P"
  shows "edge_wf P (addGraphEdge s (conceptEdge p cid))"
proof (cases "\<exists>e \<in> set (EDGES s). edge_id e = edge_id (conceptEdge p cid)")
  case True
  with assms show ?thesis by (simp add: edge_wf_def addGraphEdge_EDGES)
next
  case False
  have "edge_pair (conceptEdge p cid) \<notin> edge_pair ` set (EDGES s)"
  proof
    assume "edge_pair (conceptEdge p cid) \<in> edge_pair ` set (EDGES s)"
    then obtain e where e: "e \<in> set (EDGES s)" "source e = p" "target e = cid"
      by (auto simp: edge_pair_def)
    with assms(1) have "edge_id e = p @ js ''-'' @ cid" by (auto simp: edge_wf_def)
    with e(1) False show False by auto
  qed
  with False assms show ?thesis by (simp add: edge_wf_def addGraphEdge_EDGES)
qed

lemma addGraphEdge_has_edge_mono:
  "has_edge q c s \<Longrightarrow> has_edge q c (addGraphEdge s e)"
  by (auto simp: has_edge_def addGraphEdge_EDGES)

lemma js_dash: "js ''-'' = [45]"
  by (simp add: js_def)

lemma addGraphEdge_has_edge:
  assumes wf: "edge_wf P s" and nd: "\<forall>q \<in> P. 45 \<notin> set q" and p: "p \<in> P"
  shows "has_edge p cid (addGraphEdge s (conceptEdge p cid))"
proof (cases "\<exists>e \<in> set (EDGES s). edge_id e = edge_id (conceptEdge p cid)")
  case True
  then obtain e where e: "e \<in> set (EDGES s)" "edge_id e = p @ js ''-'' @ cid" by auto
  with wf have src: "source e \<in> P" and id: "edge_id e = source e @ js ''-'' @ target e"
    by (auto simp: edge_wf_def)
  from src nd have d1: "45 \<notin> set (source e)" by blast
  from p nd have d2: "45 \<notin> set p" by blast
  from e(2) id have "source e @ 45 # target e = p @ 45 # cid" by (simp add: js_dash)
  with d1 d2 have "source e = p \<and> target e = cid" by (rule append_sep_unique)
  with e(1) have "has_edge p cid s" by (auto simp: has_edge_def)
  then show ?thesis by (rule addGraphEdge_has_edge_mono)
next
  case False
  then show ?thesis by (auto simp: has_edge_def addGraphEdge_EDGES)
qed

lemma edge_upsertConcept [simp]:
  "edge_wf P (upsertConcept pos c p cid s) = edge_wf P s"
  "has_edge q x (upsertConcept pos c p cid s) = has_edge q x s"
  by (simp_all add: edge_wf_def has_edge_def)

lemma processConceptNode_edge_wf:
  "p \<in> P \<Longrightarrow> edge_wf P s \<Longrightarrow> processConceptNode pos c p s = Inr s' \<Longrightarrow> edge_wf P s'"
  by (elim processConceptNode_cases) (simp add: addGraphEdge_edge_wf)

lemma processConceptNode_has_edge_mono:
  "has_edge q x s \<Longrightarrow> processConceptNode pos c p s = Inr s' \<Longrightarrow> has_edge q x s'"
  by (elim processConceptNode_cases) (simp add: addGraphEdge_has_edge_mono)

lemma processConceptNode_has_edge:
  assumes "generateNodeId (js ''concept:'' @ L) = Inr cid"
      and "\<forall>q \<in> P. 45 \<notin> set q" and "p \<in> P"
      and "edge_wf P s" and "processConceptNode pos L p s = Inr s'"
  shows "has_edge p cid s'"
  using assms by (auto simp: processConceptNode_Inr addGraphEdge_has_edge)

lemma processConcepts_edge_wf:
  assumes "p \<in> P" and "edge_wf P s"
  shows "edge_wf P (fst (processConcepts rnd k cs p s))"
  using assms(2)
proof (rule processConcepts_preserves)
  show "\<And>pos c t t'. edge_wf P t \<Longrightarrow> processConceptNode pos c p t = Inr t' \<Longrightarrow> edge_wf P t'"
    using assms(1) by (rule processConceptNode_edge_wf)
qed

lemma processConcepts_has_edge_mono:
  assumes "has_edge q x s"
  shows "has_edge q x (fst (processConcepts rnd k cs p s))"
  using assms
proof (rule processConcepts_preserves)
  show "\<And>pos c t t'. has_edge q x t \<Longrightarrow> processConceptNode pos c p t = Inr t' \<Longrightarrow> has_edge q x t'"
    by (rule processConceptNode_has_edge_mono)
qed

lemma processConcepts_has_edge:
  assumes "generateNodeId (js ''concept:'' @ L) = Inr cid"
      and nd: "\<forall>q \<in> P. 45 \<notin> set q" and p: "p \<in> P"
      and "edge_wf P s" and "L \<in> set cs"
      and "\<forall>c \<in> set cs. list_all (\<lambda>x. x \<le> 255) c"
  shows "has_edge p cid (fst (processConcepts rnd k cs p s))"
  using assms(4,5,6)
proof (rule processConcepts_establishes [where I = "edge_wf P"])
  show "\<And>pos c t t'. edge_wf P t \<Longrightarrow> processConceptNode pos c p t = Inr t' \<Longrightarrow> edge_wf P t'"
    using p by (rule processConceptNode_edge_wf)
  show "\<And>pos c t t'. has_edge p cid t \<Longrightarrow> processConceptNode pos c p t = Inr t' \<Longrightarrow> has_edge p cid t'"
    by (rule processConceptNode_has_edge_mono)
  show "\<And>pos t t'. edge_wf P t \<Longrightarrow> processConceptNode pos L p t = Inr t' \<Longrightarrow> has_edge p cid t'"
    using assms(1) nd p by (rule processConceptNode_has_edge)
qed

lemma two_edges:
  assumes wf: "edge_wf {p1, p2} t" and e1: "has_edge p1 cid t" and e2: "has_edge p2 cid t"
      and ne: "p1 \<noteq> p2"
  shows "length (filter (\<lambda>e. target e = cid \<and> edge_type e = relates_to) (EDGES t)) = 2"
proof -
  let ?F = "filter (\<lambda>e. target e = cid \<and> edge_type e = relates_to) (EDGES t)"
  from wf have d: "distinct (map edge_pair ?F)"
    by (simp add: edge_wf_def distinct_map_filter)
  from wf have sub: "set (map edge_pair ?F) \<subseteq> {(p1, cid), (p2, cid)}"
    by (auto simp: edge_wf_def edge_pair_def)
  from wf e1 e2 have sup: "{(p1, cid), (p2, cid)} \<subseteq> set (map edge_pair ?F)"
    by (force simp: edge_wf_def has_edge_def edge_pair_def image_iff)
  from sub sup have "set (map edge_pair ?F) = {(p1, cid), (p2, cid)}" by blast
  with ne have c: "card (set (map edge_pair ?F)) = 2" by simp
  from d have "card (set (map edge_pair ?F)) = length (map edge_pair ?F)" by (rule distinct_card)
  with c have "length (map edge_pair ?F) = 2" by simp
  then show ?thesis by (simp only: length_map)
qed

lemma processContent_fresh:
  assumes "findSimilarContent s (url c) = None" and "gp (content c) (url c) = Some a"
      and "generateNodeId (url c) = Inr pid"
  shows "processContent gp rnd s c
           = fst (processConcepts rnd 1 (concepts a) pid
                    (addGraphNode (storeProcessedContent s (processed c a pid)) (pageNode rnd c a pid)))"
  using assms
  by (simp add: processContent_def updateKnowledgeGraph_def pageNode_def processed_def Let_def)

lemma pageNode_id [simp]: "node_id (pageNode rnd c a pid) = pid"
  by (simp add: pageNode_def)

lemma addGraphNode_filter_other:
  "X \<noteq> node_id node \<Longrightarrow>
   filter (\<lambda>m. node_id m = X) (NODES (addGraphNode s node)) = filter (\<lambda>m. node_id m = X) (NODES s)"
  by (auto simp: addGraphNode_NODES intro: filter_cong)

lemma conc_inv_cong:
  "filter (\<lambda>m. node_id m = cid) (NODES t) = filter (\<lambda>m. node_id m = cid) (NODES s) \<Longrightarrow>
   conc_inv cid P t = conc_inv cid P s"
  by (simp add: conc_inv_def)

lemma findSimilarContent_None_iff:
  "(findSimilarContent s u = None) = (u \<notin> url ` set (CONTENT s))"
  by (auto simp: findSimilarContent_def find_None_conv)

lemma storeProcessedContent_urls:
  "url ` set (CONTENT (storeProcessedContent s c)) \<subseteq> insert (url c) (url ` set (CONTENT s))"
  by (auto simp: storeProcessedContent_def Let_def dest!: in_set_takeD)

lemma sort_take_keeps:
  assumes few: "length (filter (\<lambda>x. f x \<le> f c) xs) < n"
  shows "c \<in> set (take n (sort_key f (xs @ [c])))"
proof (rule ccontr)
  let ?ys = "sort_key f (xs @ [c])"
  let ?P = "\<lambda>x. f x \<le> f c"
  assume out: "c \<notin> set (take n ?ys)"
  have "c \<in> set ?ys" by simp
  then have "c \<in> set (take n ?ys) \<union> set (drop n ?ys)"
    by (simp only: set_append [symmetric] append_take_drop_id)
  with out have tail: "c \<in> set (drop n ?ys)" by simp
  then have "drop n ?ys \<noteq> []" by auto
  then have len: "length (take n ?ys) = n" by simp
  have "sorted (map f (take n ?ys) @ map f (drop n ?ys))"
    by (simp only: map_append [symmetric] append_take_drop_id sorted_sort_key)
  then have "\<forall>a \<in> set (map f (take n ?ys)). \<forall>b \<in> set (map f (drop n ?ys)). a \<le> b"
    unfolding sorted_append by blast
  then have "\<forall>a \<in> set (take n ?ys). \<forall>b \<in> set (drop n ?ys). f a \<le> f b"
    by auto
  with tail have "\<forall>a \<in> set (take n ?ys). ?P a" by blast
  then have "filter ?P (take n ?ys) = take n ?ys" by (simp add: filter_id_conv)
  with len have head: "length (filter ?P (take n ?ys)) = n" by simp
  from tail have "filter ?P (drop n ?ys) \<noteq> []" by (auto simp: filter_empty_conv)
  then have rest: "1 \<le> length (filter ?P (drop n ?ys))"
    by (cases "filter ?P (drop n ?ys)") auto
  have "length (filter ?P ?ys) = length (filter ?P (take n ?ys)) + length (filter ?P (drop n ?ys))"
    by (metis append_take_drop_id filter_append length_append)
  with head rest have "n + 1 \<le> length (filter ?P ?ys)" by simp
  moreover have "length (filter ?P ?ys) = length (filter ?P xs) + 1"
    by (simp add: filter_sort)
  ultimately show False using few by simp
qed

lemma storeProcessedContent_keeps_recent:
  assumes "length (filter (\<lambda>item. timestamp c \<le> timestamp item) (CONTENT s)) < 1000"
  shows "c \<in> set (CONTENT (storeProcessedContent s c))"
proof -
  let ?xs = "filter (\<lambda>item. url item \<noteq> url c) (CONTENT s)"
  have "filter (\<lambda>item. timestamp c \<le> timestamp item) ?xs
          = filter (\<lambda>item. url item \<noteq> url c) (filter (\<lambda>item. timestamp c \<le> timestamp item) (CONTENT s))"
    by (simp add: conj_commute)
  then have "length (filter (\<lambda>item. timestamp c \<le> timestamp item) ?xs)
          \<le> length (filter (\<lambda>item. timestamp c \<le> timestamp item) (CONTENT s))"
    by (simp only: length_filter_le)
  with assms have "length (filter (\<lambda>x. - timestamp x \<le> - timestamp c) ?xs) < 1000" by simp
  then have "c \<in> set (take 1000 (sort_key (\<lambda>item. - timestamp item) (?xs @ [c])))"
    by (rule sort_take_keeps)
  then show ?thesis by (simp add: storeProcessedContent_def Let_def)
qed

lemma first_ingestion_archives:
  assumes fresh: "findSimilarContent s (url c) = None"
      and a: "gp (content c) (url c) = Some a"
      and pid: "generateNodeId (url c) = Inr pid"
      and room: "length (filter (\<lambda>item. timestamp c \<le> timestamp item) (CONTENT s)) < 1000"
  shows "findSimilarContent (processContent gp rnd s c) (url c) \<noteq> None"
proof -
  from fresh a pid have "CONTENT (processContent gp rnd s c)
      = CONTENT (storeProcessedContent s (processed c a pid))"
    by (simp add: processContent_fresh processConcepts_CONTENT)
  moreover have "timestamp (processed c a pid) = timestamp c" by (simp add: processed_def)
  with room have "processed c a pid \<in> set (CONTENT (storeProcessedContent s (processed c a pid)))"
    by (simp add: storeProcessedContent_keeps_recent)
  moreover have "url (processed c a pid) = url c" by (simp add: processed_def)
  ultimately have "url c \<in> url ` set (CONTENT (processContent gp rnd s c))"
    by (metis imageI)
  then show ?thesis by (simp add: findSimilarContent_None_iff)
qed

lemma second_ingestion_skips:
  assumes fresh: "findSimilarContent s (url c1) = None"
      and same: "url c2 = url c1"
      and stored: "findSimilarContent (processContent gp1 rnd1 s c1) (url c1) \<noteq> None"
  shows "processContent gp2 rnd2 (processContent gp1 rnd1 s c1) c2 = processContent gp1 rnd1 s c1
       \<and> length (filter (\<lambda>item. url item = url c1)
                   (CONTENT (processContent gp2 rnd2 (processContent gp1 rnd1 s c1) c2))) = 1
       \<and> (\<exists>pid n. generateNodeId (url c1) = Inr pid
             \<and> filter (\<lambda>m. node_id m = pid)
                  (NODES (processContent gp2 rnd2 (processContent gp1 rnd1 s c1) c2)) = [n]
             \<and> node_type n = Page \<and> n_url (data n) = Some (url c1))"
proof -
  let ?s1 = "processContent gp1 rnd1 s c1"
  from stored same have noop: "processContent gp2 rnd2 ?s1 c2 = ?s1"
    by (auto simp: processContent_def [of gp2 rnd2 ?s1 c2])
  from fresh stored obtain a where a: "gp1 (content c1) (url c1) = Some a"
    by (cases "gp1 (content c1) (url c1)") (auto simp: processContent_def)
  from fresh stored a obtain pid where pid: "generateNodeId (url c1) = Inr pid"
    by (cases "generateNodeId (url c1)") (auto simp: processContent_def)
  let ?rec = "\<lparr>url = url c1, title = title c1, content = content c1, timestamp = timestamp c1,
               metadata = metadata c1, analysis = a, nodeId = pid\<rparr>"
  from fresh a pid have s1: "?s1 = fst (updateKnowledgeGraph rnd1 c1 a (storeProcessedContent s ?rec))"
    by (simp add: processContent_def Let_def)
  then have content: "CONTENT ?s1 = CONTENT (storeProcessedContent s ?rec)"
    by (simp add: updateKnowledgeGraph_CONTENT)
  have "length (filter (\<lambda>i. url i = url ?rec) (CONTENT (storeProcessedContent s ?rec))) \<le> 1"
    by (rule storeProcessedContent_count_le)
  with content have le: "length (filter (\<lambda>i. url i = url c1) (CONTENT ?s1)) \<le> 1" by simp
  from stored have "length (filter (\<lambda>i. url i = url c1) (CONTENT ?s1)) \<ge> 1"
    unfolding findSimilarContent_def by (rule find_Some_filter_ge1)
  with le have one: "length (filter (\<lambda>i. url i = url c1) (CONTENT ?s1)) = 1" by simp
  from pid have "page_inv pid (url c1) (fst (updateKnowledgeGraph rnd1 c1 a (storeProcessedContent s ?rec)))"
    by (rule updateKnowledgeGraph_page_inv)
  with s1 have "page_inv pid (url c1) ?s1" by simp
  with pid have "\<exists>pid n. generateNodeId (url c1) = Inr pid
      \<and> filter (\<lambda>m. node_id m = pid) (NODES ?s1) = [n]
      \<and> node_type n = Page \<and> n_url (data n) = Some (url c1)"
    by (auto simp: page_inv_def)
  with noop one show ?thesis by simp
qed

lemma processContent_gp_null: "processContent gp_null rnd s c = s"
  by (simp add: processContent_def gp_null_def split: option.splits)

section \<open>Lemmas on the analysis client\<close>



lemma runTask_waits:
  "lastApiCall gp + rateLimitDelay (config gp) \<le> requested_at (fst (runTask gp now call))"
  by (simp add: runTask_def Let_def split: fetch_outcome.splits)



section \<open>Edge identifiers\<close>

lemma processConceptNode_distinct_edges:
  assumes "distinct (map edge_id (EDGES s))" and "processConceptNode pos c p s = Inr s'"
  shows "distinct (map edge_id (EDGES s'))"
proof -
  from assms(2) obtain cid where "s' = addGraphEdge (upsertConcept pos c p cid s) (conceptEdge p cid)"
    by (rule processConceptNode_cases)
  moreover from assms(1) have "distinct (map edge_id (EDGES (upsertConcept pos c p cid s)))" by simp
  ultimately show ?thesis by (simp add: addGraphEdge_distinct)
qed

lemma processConcepts_distinct_edges:
  assumes "distinct (map edge_id (EDGES s))"
  shows "distinct (map edge_id (EDGES (fst (processConcepts rnd k cs p s))))"
  using assms
proof (rule processConcepts_preserves)
  show "\<And>pos c t t'. distinct (map edge_id (EDGES t)) \<Longrightarrow> processConceptNode pos c p t = Inr t'
          \<Longrightarrow> distinct (map edge_id (EDGES t'))"
    by (rule processConceptNode_distinct_edges)
qed

lemma processContent_distinct_edges:
  assumes "distinct (map edge_id (EDGES s))"
  shows "distinct (map edge_id (EDGES (processContent gp rnd s c)))"
proof -
  have "\<And>a pid. distinct (map edge_id (EDGES (fst (updateKnowledgeGraph rnd c a
            (storeProcessedContent s (processed c a pid))))))"
    using assms
    by (simp add: updateKnowledgeGraph_def Let_def processConcepts_distinct_edges split: sum.splits)
  with assms show ?thesis
    by (simp add: processContent_def processed_def Let_def split: option.splits sum.splits)
qed

lemma clearOldData_EDGES: "EDGES (clearOldData now now' maxAge s) = EDGES s"
  by (simp add: clearOldData_def Let_def)

text \<open>
  C3: in a storage whose edges have pairwise different identifiers, adding an edge
  and then an edge of the same identifier, as two edges of the same source and
  target have, leaves the storage as the first add left it (the stored edge keeps
  its strength and relationship); exactly one stored edge has that identifier, and
  the identifiers remain pairwise different, also after an ingestion and after an
  eviction pass.
\<close>

theorem addGraphEdge_twice:
  assumes d: "distinct (map edge_id (EDGES s))"
      and same: "edge_id e2 = edge_id e1"
  shows "addGraphEdge (addGraphEdge s e1) e2 = addGraphEdge s e1
       \<and> length (filter (\<lambda>e. edge_id e = edge_id e1) (EDGES (addGraphEdge (addGraphEdge s e1) e2))) = 1
       \<and> distinct (map edge_id (EDGES (addGraphEdge (addGraphEdge s e1) e2)))
       \<and> distinct (map edge_id (EDGES (processContent gp rnd s c)))
       \<and> distinct (map edge_id (EDGES (clearOldData now now' maxAge s)))"
proof -
  let ?s1 = "addGraphEdge s e1"
  have ex: "\<exists>e \<in> set (EDGES ?s1). edge_id e = edge_id e1"
    by (auto simp: addGraphEdge_EDGES)
  then have "find (\<lambda>e. edge_id e = edge_id e2) (EDGES ?s1) \<noteq> None"
    by (simp add: same find_None_conv)
  then have noop: "addGraphEdge ?s1 e2 = ?s1" by (rule addGraphEdge_present)
  have d1: "distinct (map edge_id (EDGES ?s1))" using d by (rule addGraphEdge_distinct)
  from ex obtain e where e: "e \<in> set (EDGES ?s1)" "edge_id e = edge_id e1" by blast
  from distinct_map_filter_eq1 [OF d1 e(1)] e(2)
  have one: "length (filter (\<lambda>y. edge_id y = edge_id e1) (EDGES ?s1)) = 1" by simp
  have p: "distinct (map edge_id (EDGES (processContent gp rnd s c)))"
    using d by (rule processContent_distinct_edges)
  have c: "distinct (map edge_id (EDGES (clearOldData now now' maxAge s)))"
    using d by (simp add: clearOldData_EDGES)
  from noop one d1 p c show ?thesis by simp
qed

text \<open>
  C3 at the empty storage: the second edge, of other strength and label, is dropped.
\<close>

theorem addGraphEdge_twice_witness:
  "distinct (map edge_id (EDGES empty_storage)) \<and> edge_id edge_2 = edge_id edge_1
   \<and> EDGES (addGraphEdge (addGraphEdge empty_storage edge_1) edge_2) = [edge_1]"
proof -
  have d: "distinct (map edge_id (EDGES empty_storage))" by (simp add: empty_storage_def)
  have same: "edge_id edge_2 = edge_id edge_1" by (simp add: edge_2_def)
  have "EDGES (addGraphEdge empty_storage edge_1) = [edge_1]"
    by (simp add: addGraphEdge_def Let_def empty_storage_def)
  with addGraphEdge_twice [OF d same] d same show ?thesis by simp
qed


section \<open>The model at the example data\<close>

lemma b64chars_eval: "b64chars = [65..<91] @ [97..<123] @ [48..<58] @ [43, 47]"
  by (simp add: b64chars_def js_def upt_rec_numeral)

lemma example_ids:
  "generateNodeId (js ''https://a.example/x'') = Inr (js ''aHR0cHM6Ly9hLmV4'')"
  "generateNodeId (js ''https://b.example/y'') = Inr (js ''aHR0cHM6Ly9iLmV4'')"
  "generateNodeId (js ''concept:'' @ js ''Neural Networks'') = Inr (js ''Y29uY2VwdDpOZXVy'')"
  "generateNodeId (js ''concept:'' @ js ''neural networks'') = Inr (js ''Y29uY2VwdDpuZXVy'')"
  by (simp_all add: generateNodeId_def btoa_def b64_def b64chars_eval js_def nth_append)





lemma ingest_a:
  "processContent gp_case rnd0 empty_storage c_a
     = \<lparr>CONTENT = [processed c_a an_1 (js ''aHR0cHM6Ly9hLmV4'')],
        NODES = [pageNode rnd0 c_a an_1 (js ''aHR0cHM6Ly9hLmV4''),
                 conceptNode (0, 0) (js ''Neural Networks'') (js ''aHR0cHM6Ly9hLmV4'') (js ''Y29uY2VwdDpOZXVy'')],
        EDGES = [conceptEdge (js ''aHR0cHM6Ly9hLmV4'') (js ''Y29uY2VwdDpOZXVy'')],
        LAST_CLEANUP = 0\<rparr>"
proof -
  have fresh: "findSimilarContent empty_storage (url c_a) = None"
    by (simp add: findSimilarContent_def empty_storage_def)
  have a: "gp_case (content c_a) (url c_a) = Some an_1" by (simp add: gp_case_def c_a_def)
  have pid: "generateNodeId (url c_a) = Inr (js ''aHR0cHM6Ly9hLmV4'')" by (simp add: c_a_def example_ids)
  have ne: "js ''aHR0cHM6Ly9hLmV4'' \<noteq> js ''Y29uY2VwdDpOZXVy''" by (simp add: js_def)
  show ?thesis
    unfolding processContent_fresh [where gp = gp_case and c = c_a and s = empty_storage
        and a = an_1 and rnd = rnd0, OF fresh a pid]
    using ne
    by (simp add: an_1_def processConceptNode_Inr [OF example_ids(3)] upsertConcept_def getGraphNode_def
        addGraphNode_def addGraphEdge_def storeProcessedContent_def empty_storage_def rnd0_def Let_def)
qed

lemma ingest_a_b:
  "processContent gp_case rnd0 (processContent gp_case rnd0 empty_storage c_a) c_b
     = \<lparr>CONTENT = [processed c_b an_2 (js ''aHR0cHM6Ly9iLmV4''), processed c_a an_1 (js ''aHR0cHM6Ly9hLmV4'')],
        NODES = [pageNode rnd0 c_a an_1 (js ''aHR0cHM6Ly9hLmV4''),
                 conceptNode (0, 0) (js ''Neural Networks'') (js ''aHR0cHM6Ly9hLmV4'') (js ''Y29uY2VwdDpOZXVy''),
                 pageNode rnd0 c_b an_2 (js ''aHR0cHM6Ly9iLmV4''),
                 conceptNode (0, 0) (js ''neural networks'') (js ''aHR0cHM6Ly9iLmV4'') (js ''Y29uY2VwdDpuZXVy'')],
        EDGES = [conceptEdge (js ''aHR0cHM6Ly9hLmV4'') (js ''Y29uY2VwdDpOZXVy''),
                 conceptEdge (js ''aHR0cHM6Ly9iLmV4'') (js ''Y29uY2VwdDpuZXVy'')],
        LAST_CLEANUP = 0\<rparr>"
proof -
  let ?s1 = "processContent gp_case rnd0 empty_storage c_a"
  have "CONTENT ?s1 = [processed c_a an_1 (js ''aHR0cHM6Ly9hLmV4'')]"
    by (simp only: ingest_a Storage.simps)
  then have fresh: "findSimilarContent ?s1 (url c_b) = None"
    by (simp add: findSimilarContent_def processed_def c_a_def c_b_def js_def)
  have a: "gp_case (content c_b) (url c_b) = Some an_2" by (simp add: gp_case_def c_b_def js_def)
  have pid: "generateNodeId (url c_b) = Inr (js ''aHR0cHM6Ly9iLmV4'')" by (simp add: c_b_def example_ids)
  have ne: "js ''aHR0cHM6Ly9hLmV4'' \<noteq> js ''aHR0cHM6Ly9iLmV4''"
    "js ''Y29uY2VwdDpOZXVy'' \<noteq> js ''aHR0cHM6Ly9iLmV4''"
    "js ''aHR0cHM6Ly9hLmV4'' \<noteq> js ''Y29uY2VwdDpuZXVy''"
    "js ''Y29uY2VwdDpOZXVy'' \<noteq> js ''Y29uY2VwdDpuZXVy''"
    "js ''aHR0cHM6Ly9iLmV4'' \<noteq> js ''Y29uY2VwdDpuZXVy''"
    "js ''aHR0cHM6Ly9hLmV4'' @ js ''-'' @ js ''Y29uY2VwdDpOZXVy''
       \<noteq> js ''aHR0cHM6Ly9iLmV4'' @ js ''-'' @ js ''Y29uY2VwdDpuZXVy''"
    by (simp_all add: js_def)
  have ts: "timestamp (processed c_b an_2 (js ''aHR0cHM6Ly9iLmV4'')) = 3000"
    "timestamp (processed c_a an_1 (js ''aHR0cHM6Ly9hLmV4'')) = 1000"
    "url (processed c_a an_1 (js ''aHR0cHM6Ly9hLmV4'')) \<noteq> url (processed c_b an_2 (js ''aHR0cHM6Ly9iLmV4''))"
    by (simp_all add: processed_def c_a_def c_b_def js_def)
  show ?thesis
    unfolding processContent_fresh [where gp = gp_case and c = c_b and s = ?s1
        and a = an_2 and rnd = rnd0, OF fresh a pid]
    unfolding ingest_a
    using ne ts
    by (simp add: an_2_def processConceptNode_Inr [OF example_ids(4)] upsertConcept_def getGraphNode_def
        addGraphNode_def addGraphEdge_def storeProcessedContent_def rnd0_def Let_def)
qed


lemma ingest_a'_alone:
  "CONTENT (processContent gp_ok rnd0 empty_storage c_a')
     = [processed c_a' an_1 (js ''aHR0cHM6Ly9hLmV4'')]"
proof -
  have fresh: "findSimilarContent empty_storage (url c_a') = None"
    by (simp add: findSimilarContent_def empty_storage_def)
  have a: "gp_ok (content c_a') (url c_a') = Some an_1" by (simp add: gp_ok_def)
  have pid: "generateNodeId (url c_a') = Inr (js ''aHR0cHM6Ly9hLmV4'')"
    by (simp add: c_a'_def c_a_def example_ids)
  show ?thesis
    unfolding processContent_fresh [where gp = gp_ok and c = c_a' and s = empty_storage
        and a = an_1 and rnd = rnd0, OF fresh a pid]
    by (simp add: processConcepts_CONTENT storeProcessedContent_def empty_storage_def Let_def)
qed

section \<open>Properties of the ingestion pipeline\<close>

text \<open>
  C4: for a capture whose word count is not negative, of any content type, and an
  analysis with any number of concepts, \<open>calculateImportance\<close> lies between 0 and 10.
\<close>

theorem calculateImportance_range:
  assumes "0 \<le> wordCount (metadata c)"
  shows "0 \<le> calculateImportance c a \<and> calculateImportance c a \<le> 10"
proof -
  have w: "0 \<le> min (real_of_int (wordCount (metadata c)) / 1000) 5" using assms by simp
  have k: "0 \<le> min (real (length (concepts a)) * 0.5) 3" by simp
  from w k show ?thesis
    by (auto simp: calculateImportance_def Let_def min_def)
qed

text \<open>C4 at a capture of 60 words.\<close>

theorem calculateImportance_range_witness:
  "0 \<le> wordCount (metadata c_short) \<and> 0 \<le> calculateImportance c_short an_1
   \<and> calculateImportance c_short an_1 \<le> 10"
proof -
  have h: "0 \<le> wordCount (metadata c_short)" by (simp add: c_short_def)
  from calculateImportance_range [OF h] h show ?thesis by simp
qed

text \<open>
  C8: when the analysis client answers \<open>null\<close> for a capture, \<open>processContent\<close>
  returns the storage it was given: archive, nodes and edges are unchanged, and a
  later ingestion starts from the same storage as if this one had not happened.
\<close>

theorem processContent_null_analysis:
  assumes "geminiProcessor (content c) (url c) = None"
  shows "processContent geminiProcessor rnd s c = s"
  using assms by (simp add: processContent_def split: option.splits)

text \<open>C8 at the empty storage, with a client that always answers \<open>null\<close>.\<close>

theorem processContent_null_analysis_witness:
  "gp_null (content c_short) (url c_short) = None
   \<and> processContent gp_null rnd0 empty_storage c_short = empty_storage"
proof -
  have h: "gp_null (content c_short) (url c_short) = None" by (simp add: gp_null_def)
  from processContent_null_analysis [where geminiProcessor = gp_null and c = c_short
      and rnd = rnd0 and s = empty_storage] h
  show ?thesis by simp
qed



text \<open>
  C1 as stated fails: when the analysis client answers \<open>null\<close>, two ingestions of
  captures with the same URL leave no record and no node at all; and after a first
  ingestion that archived nothing, the second capture is analysed and archived.
\<close>

theorem null_analysis_archives_nothing:
  "url c_a' = url c_a
   \<and> CONTENT (processContent gp_null rnd0 (processContent gp_null rnd0 empty_storage c_a) c_a') = []
   \<and> NODES (processContent gp_null rnd0 (processContent gp_null rnd0 empty_storage c_a) c_a') = []
   \<and> CONTENT (processContent gp_ok rnd0 (processContent gp_null rnd0 empty_storage c_a) c_a')
       = [processed c_a' an_1 (js ''aHR0cHM6Ly9hLmV4'')]"
proof -
  have "url c_a' = url c_a" by (simp add: c_a'_def)
  moreover have "CONTENT empty_storage = [] \<and> NODES empty_storage = []"
    by (simp add: empty_storage_def)
  ultimately show ?thesis by (simp add: processContent_gp_null ingest_a'_alone)
qed

text \<open>
  C1, amended: no record of the URL is archived, the analysis of the first capture
  is not \<open>null\<close>, \<open>btoa\<close> accepts the URL, and fewer than 1000 archived records have
  a timestamp at or above that of the capture. Then the first ingestion archives a
  record of the URL, and a second ingestion of a capture with the same URL, started
  after the first has finished, returns the storage unchanged, whatever its content,
  the answer of the analysis client and the random positions; the archive then holds
  exactly one record of the URL and the node collection exactly one node with the
  identifier of the URL, a page node of that URL. Ingestions whose steps overlap
  are not covered.
\<close>

theorem dedup_second_ingestion:
  assumes fresh: "findSimilarContent s (url c1) = None"
      and same: "url c2 = url c1"
      and a: "gp1 (content c1) (url c1) = Some a"
      and pid: "generateNodeId (url c1) = Inr pid"
      and room: "length (filter (\<lambda>item. timestamp c1 \<le> timestamp item) (CONTENT s)) < 1000"
  shows "findSimilarContent (processContent gp1 rnd1 s c1) (url c1) \<noteq> None
       \<and> processContent gp2 rnd2 (processContent gp1 rnd1 s c1) c2 = processContent gp1 rnd1 s c1
       \<and> length (filter (\<lambda>item. url item = url c1)
                   (CONTENT (processContent gp2 rnd2 (processContent gp1 rnd1 s c1) c2))) = 1
       \<and> (\<exists>n. filter (\<lambda>m. node_id m = pid)
                  (NODES (processContent gp2 rnd2 (processContent gp1 rnd1 s c1) c2)) = [n]
             \<and> node_type n = Page \<and> n_url (data n) = Some (url c1))"
proof -
  from fresh a pid room
  have stored: "findSimilarContent (processContent gp1 rnd1 s c1) (url c1) \<noteq> None"
    by (rule first_ingestion_archives)
  from second_ingestion_skips [OF fresh same stored, of gp2 rnd2] pid stored
  show ?thesis by auto
qed

text \<open>
  The amended C1 at the empty storage: page \<open>A\<close> is ingested, then a capture of the
  same address with another title, text and timestamp, with a client that would
  answer \<open>null\<close>.
\<close>

theorem dedup_second_ingestion_witness:
  "url c_a' = url c_a \<and> content c_a' \<noteq> content c_a
   \<and> findSimilarContent (processContent gp_ok rnd0 empty_storage c_a) (url c_a) \<noteq> None
   \<and> processContent gp_null rnd0 (processContent gp_ok rnd0 empty_storage c_a) c_a'
        = processContent gp_ok rnd0 empty_storage c_a
   \<and> length (filter (\<lambda>item. url item = url c_a)
               (CONTENT (processContent gp_null rnd0 (processContent gp_ok rnd0 empty_storage c_a) c_a'))) = 1
   \<and> (\<exists>n. filter (\<lambda>m. node_id m = js ''aHR0cHM6Ly9hLmV4'')
              (NODES (processContent gp_null rnd0 (processContent gp_ok rnd0 empty_storage c_a) c_a')) = [n]
         \<and> node_type n = Page \<and> n_url (data n) = Some (url c_a))"
proof -
  have fresh: "findSimilarContent empty_storage (url c_a) = None"
    by (simp add: findSimilarContent_def empty_storage_def)
  have same: "url c_a' = url c_a" by (simp add: c_a'_def)
  have diff: "content c_a' \<noteq> content c_a" by (simp add: c_a'_def c_a_def js_def)
  have a: "gp_ok (content c_a) (url c_a) = Some an_1" by (simp add: gp_ok_def)
  have pid: "generateNodeId (url c_a) = Inr (js ''aHR0cHM6Ly9hLmV4'')"
    by (simp add: c_a_def example_ids)
  have room: "length (filter (\<lambda>item. timestamp c_a \<le> timestamp item) (CONTENT empty_storage)) < 1000"
    by (simp add: empty_storage_def)
  from dedup_second_ingestion [where s = empty_storage and ?c1.0 = c_a and ?c2.0 = c_a'
      and ?gp1.0 = gp_ok and a = an_1 and pid = "js ''aHR0cHM6Ly9hLmV4''"
      and ?rnd1.0 = rnd0 and ?gp2.0 = gp_null and ?rnd2.0 = rnd0, OF fresh same a pid room]
    same diff
  show ?thesis by blast
qed

text \<open>
  C2 as stated fails: the labels \<open>Neural Networks\<close> and \<open>neural networks\<close>, met on
  two pages, give two concept nodes, each with one page in its \<open>connectedPages\<close>.
\<close>

theorem case_variants_do_not_converge:
  "map (\<lambda>n. (label (data n), connectedPages (data n)))
        (filter (\<lambda>n. node_type n = Concept)
          (NODES (processContent gp_case rnd0 (processContent gp_case rnd0 empty_storage c_a) c_b)))
      = [(js ''Neural Networks'', Some [js ''aHR0cHM6Ly9hLmV4'']),
         (js ''neural networks'', Some [js ''aHR0cHM6Ly9iLmV4''])]"
  by (simp add: ingest_a_b pageNode_def conceptNode_def)

text \<open>
  C2, amended: the identifier of a concept node is computed from the label as it
  is, without normalizing case or white space. Starting from the empty storage, two
  captures of different URLs are ingested; both analyses list the label \<open>L\<close>, all
  their labels have code units up to 255 only, the two page identifiers differ, and
  the identifier of \<open>L\<close> is not one of them. Then exactly one node has the identifier
  of \<open>L\<close>, it is a concept node whose \<open>connectedPages\<close> contains both page
  identifiers, and exactly two \<open>relates_to\<close> edges point to it.
\<close>

theorem concept_convergence:
  assumes urls: "url c1 \<noteq> url c2"
      and a1: "gp (content c1) (url c1) = Some a1" and a2: "gp (content c2) (url c2) = Some a2"
      and m1: "L \<in> set (concepts a1)" and m2: "L \<in> set (concepts a2)"
      and lat1: "\<forall>l \<in> set (concepts a1). list_all (\<lambda>x. x \<le> 255) l"
      and lat2: "\<forall>l \<in> set (concepts a2). list_all (\<lambda>x. x \<le> 255) l"
      and p1: "generateNodeId (url c1) = Inr p1" and p2: "generateNodeId (url c2) = Inr p2"
      and ne: "p1 \<noteq> p2"
      and cid: "generateNodeId (js ''concept:'' @ L) = Inr cid"
      and c1: "cid \<noteq> p1" and c2: "cid \<noteq> p2"
  shows "(\<exists>n ps. filter (\<lambda>m. node_id m = cid)
                    (NODES (processContent gp rnd2 (processContent gp rnd1 empty_storage c1) c2)) = [n]
            \<and> node_type n = Concept \<and> connectedPages (data n) = Some ps
            \<and> p1 \<in> set ps \<and> p2 \<in> set ps)
       \<and> length (filter (\<lambda>e. target e = cid \<and> edge_type e = relates_to)
                   (EDGES (processContent gp rnd2 (processContent gp rnd1 empty_storage c1) c2))) = 2"
proof -
  let ?P = "{p1, p2}"
  have nd: "\<forall>q \<in> ?P. 45 \<notin> set q"
    using generateNodeId_no_dash [OF p1] generateNodeId_no_dash [OF p2] by simp
  \<comment> \<open>first ingestion\<close>
  let ?st1 = "storeProcessedContent empty_storage (processed c1 a1 p1)"
  let ?t0 = "addGraphNode ?st1 (pageNode rnd1 c1 a1 p1)"
  let ?s1 = "processContent gp rnd1 empty_storage c1"
  have fresh1: "findSimilarContent empty_storage (url c1) = None"
    by (simp add: findSimilarContent_def empty_storage_def)
  from fresh1 a1 p1 have s1: "?s1 = fst (processConcepts rnd1 1 (concepts a1) p1 ?t0)"
    by (rule processContent_fresh)
  have nodes0: "NODES ?t0 = [pageNode rnd1 c1 a1 p1]"
    by (simp add: addGraphNode_NODES empty_storage_def)
  have edges0: "EDGES ?t0 = []" by (simp add: empty_storage_def)
  from nodes0 c1 have "conc_weak cid {} ?t0" by (simp add: conc_weak_def conc_absent_def)
  from processConcepts_conc [OF cid this m1 lat1, of p1 rnd1 1] s1
  have inv1: "conc_inv cid {p1} ?s1" by simp
  from edges0 have wf0: "edge_wf ?P ?t0" by (simp add: edge_wf_def)
  have in1: "p1 \<in> ?P" by simp
  from processConcepts_edge_wf [OF in1 wf0, of rnd1 1 "concepts a1"] s1
  have wf1: "edge_wf ?P ?s1" by simp
  from processConcepts_has_edge [OF cid nd in1 wf0 m1 lat1, of rnd1 1] s1
  have e1: "has_edge p1 cid ?s1" by simp
  \<comment> \<open>second ingestion\<close>
  have "CONTENT ?s1 = CONTENT ?st1" by (simp add: s1 processConcepts_CONTENT)
  then have "url ` set (CONTENT ?s1) \<subseteq> {url c1}"
    using storeProcessedContent_urls [of empty_storage "processed c1 a1 p1"]
    by (simp add: empty_storage_def processed_def)
  with urls have fresh2: "findSimilarContent ?s1 (url c2) = None"
    by (auto simp: findSimilarContent_None_iff)
  let ?t1 = "addGraphNode (storeProcessedContent ?s1 (processed c2 a2 p2)) (pageNode rnd2 c2 a2 p2)"
  let ?s2 = "processContent gp rnd2 ?s1 c2"
  from fresh2 a2 p2 have s2: "?s2 = fst (processConcepts rnd2 1 (concepts a2) p2 ?t1)"
    by (rule processContent_fresh)
  from c2 have "filter (\<lambda>m. node_id m = cid) (NODES ?t1) = filter (\<lambda>m. node_id m = cid) (NODES ?s1)"
    by (simp add: addGraphNode_filter_other)
  from conc_inv_cong [OF this, of "{p1}"] inv1 have "conc_inv cid {p1} ?t1" by blast
  then have "conc_weak cid {p1} ?t1" by (simp add: conc_weak_def)
  from processConcepts_conc [OF cid this m2 lat2, of p2 rnd2 1] s2
  have inv2: "conc_inv cid {p2, p1} ?s2" by simp
  from wf1 have wf1': "edge_wf ?P ?t1" by (simp add: edge_wf_def)
  from e1 have e1': "has_edge p1 cid ?t1" by (simp add: has_edge_def)
  have in2: "p2 \<in> ?P" by simp
  from processConcepts_edge_wf [OF in2 wf1', of rnd2 1 "concepts a2"] s2
  have wf2: "edge_wf ?P ?s2" by simp
  from processConcepts_has_edge [OF cid nd in2 wf1' m2 lat2, of rnd2 1] s2
  have e22: "has_edge p2 cid ?s2" by simp
  from processConcepts_has_edge_mono [OF e1', of rnd2 1 "concepts a2" p2] s2
  have e21: "has_edge p1 cid ?s2" by simp
  from wf2 e21 e22 ne
  have two: "length (filter (\<lambda>e. target e = cid \<and> edge_type e = relates_to) (EDGES ?s2)) = 2"
    by (rule two_edges)
  from inv2 have "\<exists>n ps. filter (\<lambda>m. node_id m = cid) (NODES ?s2) = [n]
            \<and> node_type n = Concept \<and> connectedPages (data n) = Some ps
            \<and> p1 \<in> set ps \<and> p2 \<in> set ps"
    by (auto simp: conc_inv_def)
  with two show ?thesis by simp
qed

text \<open>The amended C2 at pages \<open>A\<close> and \<open>B\<close>, both with the label \<open>Neural Networks\<close>.\<close>

theorem concept_convergence_witness:
  "url c_a \<noteq> url c_b
   \<and> (\<exists>n ps. filter (\<lambda>m. node_id m = js ''Y29uY2VwdDpOZXVy'')
                    (NODES (processContent gp_ok rnd0 (processContent gp_ok rnd0 empty_storage c_a) c_b)) = [n]
            \<and> node_type n = Concept \<and> connectedPages (data n) = Some ps
            \<and> js ''aHR0cHM6Ly9hLmV4'' \<in> set ps \<and> js ''aHR0cHM6Ly9iLmV4'' \<in> set ps)
   \<and> length (filter (\<lambda>e. target e = js ''Y29uY2VwdDpOZXVy'' \<and> edge_type e = relates_to)
               (EDGES (processContent gp_ok rnd0 (processContent gp_ok rnd0 empty_storage c_a) c_b))) = 2"
proof -
  have urls: "url c_a \<noteq> url c_b" by (simp add: c_a_def c_b_def js_def)
  have a1: "gp_ok (content c_a) (url c_a) = Some an_1" by (simp add: gp_ok_def)
  have a2: "gp_ok (content c_b) (url c_b) = Some an_1" by (simp add: gp_ok_def)
  have m: "js ''Neural Networks'' \<in> set (concepts an_1)" by (simp add: an_1_def)
  have lat: "\<forall>l \<in> set (concepts an_1). list_all (\<lambda>x. x \<le> 255) l"
    by (simp add: an_1_def js_def)
  have p1: "generateNodeId (url c_a) = Inr (js ''aHR0cHM6Ly9hLmV4'')"
    by (simp add: c_a_def example_ids)
  have p2: "generateNodeId (url c_b) = Inr (js ''aHR0cHM6Ly9iLmV4'')"
    by (simp add: c_b_def example_ids)
  have ne: "js ''aHR0cHM6Ly9hLmV4'' \<noteq> js ''aHR0cHM6Ly9iLmV4''" by (simp add: js_def)
  have cid: "generateNodeId (js ''concept:'' @ js ''Neural Networks'') = Inr (js ''Y29uY2VwdDpOZXVy'')"
    by (rule example_ids(3))
  have c1: "js ''Y29uY2VwdDpOZXVy'' \<noteq> js ''aHR0cHM6Ly9hLmV4''" by (simp add: js_def)
  have c2: "js ''Y29uY2VwdDpOZXVy'' \<noteq> js ''aHR0cHM6Ly9iLmV4''" by (simp add: js_def)
  from concept_convergence [OF urls a1 a2 m m lat lat p1 p2 ne cid c1 c2, of rnd0 rnd0] urls
  show ?thesis by blast
qed

section \<open>Properties of the analysis client\<close>




text \<open>
  C6 at a queue of two calls, with the delay of 1000 ms: the fetch of the first call
  is issued at once and rejects after 40 ms; the second request is issued at that
  very moment, because \<open>lastApiCall\<close> was not set.
\<close>

theorem failed_fetch_skips_rate_limit:
  "map (\<lambda>l. (requested_at l, settled_at l)) (fst (processQueue gp0 1700000000000 [call_fail, call_ok]))
     = [(1700000000000, 1700000000040), (1700000000040, 1700000000100)]
   \<and> rateLimitDelay (config gp0) = 1000"
  by (simp add: runTask_def gp0_def getConfig_def call_fail_def call_ok_def ok_def Let_def)

end
